theory Spec2Isabelle
  imports Complex_Main "HOL-Library.List_Lexorder"
begin

section \<open>Python values used by the scraper and the validator\<close>

text \<open>
  A Python \<open>str\<close> is a sequence of Unicode code points; it is modelled as a list of
  natural numbers, so that slicing, \<open>split\<close>, \<open>startswith\<close> and comparison count what
  Python counts. \<open>ascii\<close> turns an ASCII literal into such a list.
\<close>

type_synonym pystr = "nat list"

definition ascii :: "string \<Rightarrow> pystr" where
  "ascii s = map of_char s"

text \<open>
  The exceptions the two scripts can meet. \<open>HTTPError\<close> is what
  \<open>resp.raise_for_status()\<close> raises, \<open>OSError\<close> an input/output failure of the
  device, \<open>UnicodeEncodeError\<close> what writing a text with a lone surrogate raises, and
  \<open>ReadError\<close> what \<open>tarfile\<close> raises on an archive it cannot read to its end.
\<close>

datatype error =
    ValueError | TypeError | IndexError | KeyError | AttributeError
  | FileNotFoundError | OverflowError | HTTPError | OSError | UnicodeEncodeError | ReadError

text \<open>
  A Python \<open>float\<close>. A finite value is represented by the exact decimal number it was
  written as; CPython converts a decimal text to binary64 by correct rounding, so the
  decimal determines the float (the rounding itself, overflow to infinity and the sign
  of zero are not represented).
\<close>

datatype pyfloat = Fin rat | PosInf | NegInf | NaN

text \<open>
  The values a cell of a data frame read with \<open>dtype=str\<close> can hold (a \<open>str\<close>, or the
  float NaN of an empty field), and \<open>None\<close>.
\<close>

datatype pyval = Str pystr | Flt pyfloat | NoneVal

subsection \<open>The builtin \<open>float\<close>\<close>

text \<open>
  \<open>float(s)\<close> on a \<open>str\<close>: ASCII white space is stripped at both ends, an underscore
  is allowed only between two digits, and what is left must be, after an optional sign,
  \<open>inf\<close>, \<open>infinity\<close> or \<open>nan\<close> in any letter case, or a decimal number
  \<open>digits [. [digits]] | . digits\<close> with an optional exponent \<open>(e|E) [sign] digits\<close>.
  Anything else raises \<open>ValueError\<close>. Code points above 127 are rejected here (CPython
  also accepts the decimal digits and spaces of other scripts).
\<close>

definition is_space :: "nat \<Rightarrow> bool" where
  "is_space c \<longleftrightarrow> c = 32 \<or> (9 \<le> c \<and> c \<le> 13)"

definition is_digit :: "nat \<Rightarrow> bool" where
  "is_digit c \<longleftrightarrow> 48 \<le> c \<and> c \<le> 57"

definition strip :: "pystr \<Rightarrow> pystr" where
  "strip s = rev (dropWhile is_space (rev (dropWhile is_space s)))"

definition lower :: "pystr \<Rightarrow> pystr" where
  "lower s = map (\<lambda>c. if 65 \<le> c \<and> c \<le> 90 then c + 32 else c) s"

fun underscores_ok :: "nat option \<Rightarrow> pystr \<Rightarrow> bool" where
  "underscores_ok p [] = True"
| "underscores_ok p (c # cs) =
     (if c = 95
      then (case p of Some d \<Rightarrow> is_digit d | None \<Rightarrow> False)
           \<and> (case cs of d # _ \<Rightarrow> is_digit d | [] \<Rightarrow> False)
           \<and> underscores_ok (Some c) cs
      else underscores_ok (Some c) cs)"

definition digits_val :: "pystr \<Rightarrow> nat" where
  "digits_val ds = foldl (\<lambda>a c. 10 * a + (c - 48)) 0 ds"

definition parse_sign :: "pystr \<Rightarrow> bool \<times> pystr" where
  "parse_sign s =
     (case s of
        [] \<Rightarrow> (False, [])
      | c # cs \<Rightarrow> if c = 45 then (True, cs) else if c = 43 then (False, cs) else (False, s))"

definition parse_exponent :: "pystr \<Rightarrow> int option" where
  "parse_exponent s =
     (case s of
        [] \<Rightarrow> Some 0
      | c # cs \<Rightarrow>
          if c = 101 \<or> c = 69
          then (case parse_sign cs of
                  (neg, ds) \<Rightarrow>
                    if ds \<noteq> [] \<and> list_all is_digit ds
                    then Some (if neg then - int (digits_val ds) else int (digits_val ds))
                    else None)
          else None)"

definition scale10 :: "rat \<Rightarrow> int \<Rightarrow> rat" where
  "scale10 m e = (if 0 \<le> e then m * 10 ^ nat e else m / 10 ^ nat (- e))"

definition parse_number :: "pystr \<Rightarrow> rat option" where
  "parse_number s =
     (let ip = takeWhile is_digit s;
          r1 = dropWhile is_digit s;
          fp = (case r1 of [] \<Rightarrow> [] | c # cs \<Rightarrow> if c = 46 then takeWhile is_digit cs else []);
          r2 = (case r1 of [] \<Rightarrow> [] | c # cs \<Rightarrow> if c = 46 then dropWhile is_digit cs else r1)
      in if ip = [] \<and> fp = [] then None
         else (case parse_exponent r2 of
                 None \<Rightarrow> None
               | Some e \<Rightarrow>
                   Some (scale10 (of_nat (digits_val (ip @ fp))) (e - int (length fp)))))"

definition float_of_str :: "pystr \<Rightarrow> error + pyfloat" where
  "float_of_str s0 =
     (let s = strip s0 in
      if \<not> underscores_ok None s then Inl ValueError
      else (case parse_sign (filter (\<lambda>c. c \<noteq> 95) s) of
              (neg, body) \<Rightarrow>
                if lower body = ascii ''inf'' \<or> lower body = ascii ''infinity''
                then Inr (if neg then NegInf else PosInf)
                else if lower body = ascii ''nan'' then Inr NaN
                else (case parse_number body of
                        None \<Rightarrow> Inl ValueError
                      | Some q \<Rightarrow> Inr (Fin (if neg then - q else q)))))"

definition py_float :: "pyval \<Rightarrow> error + pyfloat" where
  "py_float v =
     (case v of Str s \<Rightarrow> float_of_str s | Flt f \<Rightarrow> Inr f | NoneVal \<Rightarrow> Inl TypeError)"

section \<open>validate.py: numeric coercion\<close>

text \<open>
  \<open>is_numeric\<close> and \<open>to_numeric_safe\<close> catch \<open>ValueError\<close> and \<open>TypeError\<close> only;
  any other exception raised by \<open>float\<close> would pass through, so both return a result
  or an error.
\<close>

definition is_numeric :: "pyval \<Rightarrow> error + bool" where
  "is_numeric v =
     (case py_float v of
        Inr _ \<Rightarrow> Inr True
      | Inl ValueError \<Rightarrow> Inr False
      | Inl TypeError \<Rightarrow> Inr False
      | Inl e \<Rightarrow> Inl e)"

definition to_numeric_safe :: "pyval \<Rightarrow> error + pyfloat" where
  "to_numeric_safe v =
     (case py_float v of
        Inr f \<Rightarrow> Inr f
      | Inl ValueError \<Rightarrow> Inr NaN
      | Inl TypeError \<Rightarrow> Inr NaN
      | Inl e \<Rightarrow> Inl e)"

section \<open>Formatting integers\<close>

text \<open>
  \<open>str(n)\<close> of a Python \<open>int\<close>, and the format specification \<open>02\<close> of the f-strings
  (\<open>f'{month:02}'\<close>): zero padding to width two, the sign counted in the width.
\<close>

fun str_nat :: "nat \<Rightarrow> pystr" where
  "str_nat n = (if n < 10 then [48 + n] else str_nat (n div 10) @ [48 + n mod 10])"

declare str_nat.simps [simp del]

definition str_int :: "int \<Rightarrow> pystr" where
  "str_int i = (if i < 0 then 45 # str_nat (nat (- i)) else str_nat (nat i))"

definition fmt02 :: "int \<Rightarrow> pystr" where
  "fmt02 i =
     (if i < 0 then 45 # str_nat (nat (- i))
      else replicate (2 - length (str_nat (nat i))) 48 @ str_nat (nat i))"

section \<open>The file system and the network\<close>

text \<open>
  The write operations of the scraper that the device can refuse: opening a cache file
  for writing and writing its text, opening an archive for writing, adding a member to
  it, and closing it (when the end of the archive is written and the compressed stream
  is flushed).
\<close>

datatype io_op =
    OpenCache pystr | WriteCache pystr
  | OpenTar pystr | AddTar pystr pystr | CloseTar pystr

text \<open>
  An archive of \<open>tar_gz/\<close>: its members (name and content) in the order they were
  added. It is \<open>Archive\<close> when it was written and closed normally, and \<open>Truncated\<close>
  when writing it was abandoned by an exception.
\<close>

datatype archive = Archive "(pystr \<times> pystr) list" | Truncated "(pystr \<times> pystr) list"

text \<open>
  The state the scraper works on: the loose files of \<open>cache/\<close> (file name to stored
  text), the archives of \<open>tar_gz/\<close>, the remote service (URL to the response text, or
  the error that \<open>raise_for_status\<close> raises), the URLs requested so far, the write
  operations that fail with \<open>OSError\<close>, and, for a file whose writing failed, how much
  of it reached the disk (the characters of a cache file, the readable members of an
  archive).
\<close>

record world =
  cache :: "pystr \<rightharpoonup> pystr"
  tars :: "pystr \<rightharpoonup> archive"
  net :: "pystr \<Rightarrow> error + pystr"
  requested :: "pystr list"
  failing :: "io_op set"
  salvage :: "pystr \<Rightarrow> nat"

text \<open>
  \<open>open(cache_file, 'r', encoding='utf8')\<close> opens the file in text mode with the default
  \<open>newline=None\<close>: \<open>read()\<close> returns the stored text with every \<open>\r\n\<close> and every
  other \<open>\r\<close> translated to \<open>\n\<close>. Writing in text mode on a POSIX system stores the
  text as it is; a text with a lone surrogate (a code point from D800 to DFFF) cannot be
  encoded as UTF-8.
\<close>

definition encodable :: "pystr \<Rightarrow> bool" where
  "encodable s = list_all (\<lambda>c. \<not> (55296 \<le> c \<and> c \<le> 57343)) s"

fun universal_newlines :: "pystr \<Rightarrow> pystr" where
  "universal_newlines [] = []"
| "universal_newlines [c] = [if c = 13 then 10 else c]"
| "universal_newlines (c # d # cs) =
     (if c = 13
      then (if d = 10 then 10 # universal_newlines cs else 10 # universal_newlines (d # cs))
      else c # universal_newlines (d # cs))"

text \<open>
  \<open>get_page\<close>. On a miss the request is made; \<open>raise_for_status\<close> raises before
  anything is stored. Then \<open>open(cache_file, 'w')\<close> creates the file empty, and
  \<open>write\<close> stores the text: a text that cannot be encoded raises and leaves the file
  empty, a failure of the device raises and leaves what reached the disk.
\<close>

definition get_page :: "pystr \<Rightarrow> pystr \<Rightarrow> world \<Rightarrow> (error + pystr) \<times> world" where
  "get_page url cache_filename w =
     (case cache w cache_filename of
        Some stored \<Rightarrow> (Inr (universal_newlines stored), w)
      | None \<Rightarrow>
          (let w1 = w\<lparr>requested := requested w @ [url]\<rparr> in
           case net w url of
             Inl e \<Rightarrow> (Inl e, w1)
           | Inr content \<Rightarrow>
               if OpenCache cache_filename \<in> failing w then (Inl OSError, w1)
               else if \<not> encodable content
               then (Inl UnicodeEncodeError, w1\<lparr>cache := (cache w1)(cache_filename \<mapsto> [])\<rparr>)
               else if WriteCache cache_filename \<in> failing w
               then (Inl OSError,
                     w1\<lparr>cache := (cache w1)(cache_filename \<mapsto>
                           take (salvage w cache_filename) content)\<rparr>)
               else (Inr content, w1\<lparr>cache := (cache w1)(cache_filename \<mapsto> content)\<rparr>)))"

definition get_page_block_date ::
  "int \<Rightarrow> int \<Rightarrow> int \<Rightarrow> int \<Rightarrow> int \<Rightarrow> world \<Rightarrow> (error + pystr) \<times> world" where
  "get_page_block_date prec_no block_no year month day w =
     get_page
       (ascii ''https://www.data.jma.go.jp/stats/etrn/view/hourly_s1.php''
        @ ascii ''?prec_no='' @ str_int prec_no @ ascii ''&block_no='' @ str_int block_no
        @ ascii ''&year='' @ str_int year @ ascii ''&month='' @ str_int month
        @ ascii ''&day='' @ str_int day @ ascii ''&view='')
       (str_int prec_no @ ascii ''_'' @ str_int block_no @ ascii ''_'' @ str_int year
        @ ascii ''-'' @ fmt02 month @ ascii ''-'' @ fmt02 day @ ascii ''.txt'')
       w"

definition get_page_blocks :: "int \<Rightarrow> world \<Rightarrow> (error + pystr) \<times> world" where
  "get_page_blocks prec_no w =
     get_page
       (ascii ''https://www.data.jma.go.jp/stats/etrn/select/prefecture.php?prec_no=''
        @ str_int prec_no)
       (ascii ''prefecture_'' @ str_int prec_no @ ascii ''.txt'')
       w"

definition get_page_precs :: "world \<Rightarrow> (error + pystr) \<times> world" where
  "get_page_precs w =
     get_page
       (ascii ''https://www.data.jma.go.jp/stats/etrn/select/prefecture00.php'')
       (ascii ''prefectures.txt'')
       w"

section \<open>Parsed markup\<close>

text \<open>
  What \<open>BeautifulSoup(content, 'html.parser')\<close> returns: a tree of tags, each with a
  name, an attribute dictionary and children, and of text nodes. The parser itself is a
  library; the functions below take it as the parameter \<open>bs\<close>.
  \<open>find_all(name)\<close> returns the descendants with that tag name in document order,
  \<open>find(name)\<close> the first of them or \<open>None\<close>, \<open>get_text()\<close> the concatenation of
  the text nodes below, and \<open>tag.get(key)\<close> the attribute value or \<open>None\<close>.
\<close>

datatype node = Tag pystr "(pystr \<times> pystr) list" "node list" | Text pystr

fun descendants :: "node \<Rightarrow> node list" where
  "descendants (Text t) = []"
| "descendants (Tag n a cs) = concat (map (\<lambda>c. c # descendants c) cs)"

fun is_tag :: "pystr \<Rightarrow> node \<Rightarrow> bool" where
  "is_tag name (Text t) = False"
| "is_tag name (Tag n a cs) = (n = name)"

definition find_all :: "pystr \<Rightarrow> node \<Rightarrow> node list" where
  "find_all name x = filter (is_tag name) (descendants x)"

definition find_first :: "pystr \<Rightarrow> node \<Rightarrow> node option" where
  "find_first name x = (case find_all name x of [] \<Rightarrow> None | y # _ \<Rightarrow> Some y)"

fun get_text :: "node \<Rightarrow> pystr" where
  "get_text (Text t) = t"
| "get_text (Tag n a cs) = concat (map get_text cs)"

fun get_attr :: "node \<Rightarrow> pystr \<Rightarrow> pystr option" where
  "get_attr (Text t) key = None"
| "get_attr (Tag n a cs) key = map_of a key"

section \<open>scrape.py: the station master\<close>

text \<open>
  The two constant tables of the source, written as code points:
  \<open>prec_blocks_target\<close>, the 47 target keys \<open>region name::station name\<close> in the
  order of the source (Sapporo, Aomori, Akita, \<dots>, Kagoshima, Naha), and
  \<open>dict_block_name_en\<close>, the station names with their romanised names. \<open>nankyoku\<close>
  is the region name that the loop skips (the Antarctic).
\<close>

definition prec_blocks_target :: "pystr list" where
  "prec_blocks_target =
     [
      [30707, 29417, 22320, 26041, 58, 58, 26413, 24140],
      [38738, 26862, 30476, 58, 58, 38738, 26862],
      [31179, 30000, 30476, 58, 58, 31179, 30000],
      [23721, 25163, 30476, 58, 58, 30427, 23713],
      [23470, 22478, 30476, 58, 58, 20185, 21488],
      [23665, 24418, 30476, 58, 58, 23665, 24418],
      [31119, 23798, 30476, 58, 58, 31119, 23798],
      [33576, 22478, 30476, 58, 58, 27700, 25144],
      [26627, 26408, 30476, 58, 58, 23431, 37117, 23470],
      [32676, 39340, 30476, 58, 58, 21069, 27211],
      [22524, 29577, 30476, 58, 58, 29066, 35895],
      [26481, 20140, 37117, 58, 58, 26481, 20140],
      [21315, 33865, 30476, 58, 58, 21315, 33865],
      [31070, 22856, 24029, 30476, 58, 58, 27178, 27996],
      [38263, 37326, 30476, 58, 58, 38263, 37326],
      [23665, 26792, 30476, 58, 58, 30002, 24220],
      [38745, 23713, 30476, 58, 58, 38745, 23713],
      [24859, 30693, 30476, 58, 58, 21517, 21476, 23627],
      [23696, 38428, 30476, 58, 58, 23696, 38428],
      [19977, 37325, 30476, 58, 58, 27941],
      [26032, 28511, 30476, 58, 58, 26032, 28511],
      [23500, 23665, 30476, 58, 58, 23500, 23665],
      [30707, 24029, 30476, 58, 58, 37329, 27810],
      [31119, 20117, 30476, 58, 58, 31119, 20117],
      [28363, 36032, 30476, 58, 58, 24422, 26681],
      [20140, 37117, 24220, 58, 58, 20140, 37117],
      [22823, 38442, 24220, 58, 58, 22823, 38442],
      [20853, 24235, 30476, 58, 58, 31070, 25144],
      [22856, 33391, 30476, 58, 58, 22856, 33391],
      [21644, 27468, 23665, 30476, 58, 58, 21644, 27468, 23665],
      [23713, 23665, 30476, 58, 58, 23713, 23665],
      [24195, 23798, 30476, 58, 58, 24195, 23798],
      [23798, 26681, 30476, 58, 58, 26494, 27743],
      [40165, 21462, 30476, 58, 58, 40165, 21462],
      [24499, 23798, 30476, 58, 58, 24499, 23798],
      [39321, 24029, 30476, 58, 58, 39640, 26494],
      [24859, 23195, 30476, 58, 58, 26494, 23665],
      [39640, 30693, 30476, 58, 58, 39640, 30693],
      [23665, 21475, 30476, 58, 58, 23665, 21475],
      [31119, 23713, 30476, 58, 58, 31119, 23713],
      [22823, 20998, 30476, 58, 58, 22823, 20998],
      [38263, 23822, 30476, 58, 58, 38263, 23822],
      [20304, 36032, 30476, 58, 58, 20304, 36032],
      [29066, 26412, 30476, 58, 58, 29066, 26412],
      [23470, 23822, 30476, 58, 58, 23470, 23822],
      [40575, 20816, 23798, 30476, 58, 58, 40575, 20816, 23798],
      [27798, 32260, 30476, 58, 58, 37027, 35207]]"

definition dict_block_name_en :: "(pystr \<times> pystr) list" where
  "dict_block_name_en =
     [
      ([26413, 24140], ascii ''sapporo''),
      ([38738, 26862], ascii ''aomori''),
      ([31179, 30000], ascii ''akita''),
      ([30427, 23713], ascii ''morioka''),
      ([20185, 21488], ascii ''sendai''),
      ([23665, 24418], ascii ''yamagata''),
      ([31119, 23798], ascii ''fukushima''),
      ([27700, 25144], ascii ''mito''),
      ([23431, 37117, 23470], ascii ''utsunomiya''),
      ([21069, 27211], ascii ''maebashi''),
      ([29066, 35895], ascii ''kumagaya''),
      ([26481, 20140], ascii ''tokyo''),
      ([21315, 33865], ascii ''chiba''),
      ([27178, 27996], ascii ''yokohama''),
      ([38263, 37326], ascii ''nagano''),
      ([30002, 24220], ascii ''kofu''),
      ([38745, 23713], ascii ''shizuoka''),
      ([21517, 21476, 23627], ascii ''nagoya''),
      ([23696, 38428], ascii ''gifu''),
      ([27941], ascii ''tsu''),
      ([26032, 28511], ascii ''niigata''),
      ([23500, 23665], ascii ''toyama''),
      ([37329, 27810], ascii ''kanazawa''),
      ([31119, 20117], ascii ''fukui''),
      ([24422, 26681], ascii ''hikone''),
      ([20140, 37117], ascii ''kyoto''),
      ([22823, 38442], ascii ''osaka''),
      ([31070, 25144], ascii ''kobe''),
      ([22856, 33391], ascii ''nara''),
      ([21644, 27468, 23665], ascii ''wakayama''),
      ([23713, 23665], ascii ''okayama''),
      ([24195, 23798], ascii ''hiroshima''),
      ([26494, 27743], ascii ''matsue''),
      ([40165, 21462], ascii ''tottori''),
      ([24499, 23798], ascii ''tokushima''),
      ([39640, 26494], ascii ''takamatsu''),
      ([26494, 23665], ascii ''matsuyama''),
      ([39640, 30693], ascii ''kochi''),
      ([23665, 21475], ascii ''yamaguchi''),
      ([31119, 23713], ascii ''fukuoka''),
      ([22823, 20998], ascii ''oita''),
      ([38263, 23822], ascii ''nagasaki''),
      ([20304, 36032], ascii ''saga''),
      ([29066, 26412], ascii ''kumamoto''),
      ([23470, 23822], ascii ''miyazaki''),
      ([40575, 20816, 23798], ascii ''kagoshima''),
      ([37027, 35207], ascii ''naha'')]"

definition nankyoku :: pystr where
  "nankyoku = [21335, 26997]"

text \<open>
  \<open>s.split(sep)\<close> for a non-empty separator, indexing that raises \<open>IndexError\<close>,
  the slice \<open>x[1:-1]\<close>, the builtin \<open>int\<close> on a text (white space stripped, a
  sign, decimal digits with single underscores between digits) and the float
  operations used for the coordinates.
\<close>

function split_from :: "pystr \<Rightarrow> pystr \<Rightarrow> pystr \<Rightarrow> pystr list" where
  "split_from sep cur [] = [cur]"
| "split_from sep cur (c # cs) =
     (if sep \<noteq> [] \<and> take (length sep) (c # cs) = sep
      then cur # split_from sep [] (drop (length sep) (c # cs))
      else split_from sep (cur @ [c]) cs)"
  by pat_completeness auto
termination
  by (relation "measure (\<lambda>(sep, cur, s). length s)") auto

definition py_split :: "pystr \<Rightarrow> pystr \<Rightarrow> pystr list" where
  "py_split s sep = split_from sep [] s"

definition nth_err :: "'a list \<Rightarrow> nat \<Rightarrow> error + 'a" where
  "nth_err xs i = (if i < length xs then Inr (xs ! i) else Inl IndexError)"

definition bind_err :: "error + 'a \<Rightarrow> ('a \<Rightarrow> error + 'b) \<Rightarrow> error + 'b" where
  "bind_err r f = (case r of Inl e \<Rightarrow> Inl e | Inr x \<Rightarrow> f x)"

definition slice_1_m1 :: "pystr \<Rightarrow> pystr" where
  "slice_1_m1 x = butlast (tl x)"

definition int_of_str :: "pystr \<Rightarrow> error + int" where
  "int_of_str s0 =
     (let s = strip s0 in
      if \<not> underscores_ok None s then Inl ValueError
      else (case parse_sign (filter (\<lambda>c. c \<noteq> 95) s) of
              (neg, ds) \<Rightarrow>
                if ds \<noteq> [] \<and> list_all is_digit ds
                then Inr (if neg then - int (digits_val ds) else int (digits_val ds))
                else Inl ValueError))"

fun pf_add :: "pyfloat \<Rightarrow> pyfloat \<Rightarrow> pyfloat" where
  "pf_add (Fin a) (Fin b) = Fin (a + b)"
| "pf_add NaN y = NaN"
| "pf_add x NaN = NaN"
| "pf_add PosInf NegInf = NaN"
| "pf_add NegInf PosInf = NaN"
| "pf_add PosInf y = PosInf"
| "pf_add x PosInf = PosInf"
| "pf_add NegInf y = NegInf"
| "pf_add x NegInf = NegInf"

definition pf_div60 :: "pyfloat \<Rightarrow> pyfloat" where
  "pf_div60 x = (case x of Fin a \<Rightarrow> Fin (a / 60) | PosInf \<Rightarrow> PosInf | NegInf \<Rightarrow> NegInf | NaN \<Rightarrow> NaN)"

text \<open>One row of the master table, with the columns in the order of the source.\<close>

record station =
  st_prec_no :: int
  st_prec_name :: pystr
  st_block_no :: int
  st_block_name :: pystr
  st_block_name_en :: pystr
  st_lat :: pyfloat
  st_lng :: pyfloat

text \<open>
  The region number of an \<open>area\<close> element of the region page:
  \<open>int(prec.get('href').split('prec_no=')[1].split('&')[0])\<close>.
\<close>

definition prec_no_of :: "node \<Rightarrow> error + int" where
  "prec_no_of prec =
     (case get_attr prec (ascii ''href'') of
        None \<Rightarrow> Inl AttributeError
      | Some href \<Rightarrow>
          bind_err (nth_err (py_split href (ascii ''prec_no='')) 1) (\<lambda>rest.
          bind_err (nth_err (py_split rest (ascii ''&'')) 0) int_of_str))"

text \<open>
  The fields of an \<open>onmouseover\<close> text:
  \<open>[x[1:-1] for x in s.split('(')[1].split(')')[0].split(',')]\<close>; and what the loop
  body reads from them: nothing for an entry whose kind is not \<open>s\<close> (not an
  observatory), else the station number, the station name and the two coordinates.
\<close>

definition block_fields :: "pystr \<Rightarrow> error + pystr list" where
  "block_fields s =
     bind_err (nth_err (py_split s (ascii ''('')) 1) (\<lambda>a.
     bind_err (nth_err (py_split a (ascii '')'')) 0) (\<lambda>b.
     Inr (map slice_1_m1 (py_split b (ascii '','')))))"

definition float_at :: "pystr list \<Rightarrow> nat \<Rightarrow> error + pyfloat" where
  "float_at li i = bind_err (nth_err li i) float_of_str"

definition parse_block :: "pystr list \<Rightarrow> error + (int \<times> pystr \<times> pyfloat \<times> pyfloat) option" where
  "parse_block li =
     bind_err (nth_err li 0) (\<lambda>kind.
     if kind \<noteq> ascii ''s'' then Inr None
     else
       bind_err (nth_err li 1) (\<lambda>a.
       bind_err (int_of_str a) (\<lambda>block_no.
       bind_err (nth_err li 2) (\<lambda>block_name.
       bind_err (float_at li 4) (\<lambda>lat_deg.
       bind_err (float_at li 5) (\<lambda>lat_min.
       bind_err (float_at li 6) (\<lambda>lng_deg.
       bind_err (float_at li 7) (\<lambda>lng_min.
       Inr (Some (block_no, block_name,
                  pf_add lat_deg (pf_div60 lat_min),
                  pf_add lng_deg (pf_div60 lng_min)))))))))))"

text \<open>
  The rest of the loop body, for an observatory entry: the key
  \<open>prec_name + '::' + block_name\<close> (a \<open>TypeError\<close> when the region has no \<open>alt\<close>),
  the test against the target list, the test against the keys seen so far, and the new
  row (a \<open>KeyError\<close> when the station name has no romanised name). The state is the set
  \<open>set_prec_block\<close> and the frame \<open>df_m\<close>.
\<close>

type_synonym master_state = "pystr set \<times> station list"

definition add_block ::
  "int \<Rightarrow> pystr option \<Rightarrow> int \<times> pystr \<times> pyfloat \<times> pyfloat \<Rightarrow> master_state
     \<Rightarrow> error + master_state" where
  "add_block prec_no prec_name b st =
     (case b of (block_no, block_name, lat, lng) \<Rightarrow>
      case st of (set_prec_block, df_m) \<Rightarrow>
      case prec_name of
        None \<Rightarrow> Inl TypeError
      | Some pn \<Rightarrow>
          (let prec_block = pn @ ascii ''::'' @ block_name in
           if prec_block \<notin> set prec_blocks_target then Inr (set_prec_block, df_m)
           else if prec_block \<in> set_prec_block then Inr (set_prec_block, df_m)
           else (case map_of dict_block_name_en block_name of
                   None \<Rightarrow> Inl KeyError
                 | Some en \<Rightarrow>
                     Inr (insert prec_block set_prec_block,
                          df_m @ [\<lparr> st_prec_no = prec_no, st_prec_name = pn,
                                    st_block_no = block_no, st_block_name = block_name,
                                    st_block_name_en = en, st_lat = lat, st_lng = lng \<rparr>]))))"

fun blocks_loop ::
  "int \<Rightarrow> pystr option \<Rightarrow> node list \<Rightarrow> master_state \<Rightarrow> error + master_state" where
  "blocks_loop prec_no prec_name [] st = Inr st"
| "blocks_loop prec_no prec_name (block # blocks) st =
     (case get_attr block (ascii ''onmouseover'') of
        None \<Rightarrow> blocks_loop prec_no prec_name blocks st
      | Some s \<Rightarrow>
          (case bind_err (block_fields s) parse_block of
             Inl e \<Rightarrow> Inl e
           | Inr None \<Rightarrow> blocks_loop prec_no prec_name blocks st
           | Inr (Some b) \<Rightarrow>
               (case add_block prec_no prec_name b st of
                  Inl e \<Rightarrow> Inl e
                | Inr st' \<Rightarrow> blocks_loop prec_no prec_name blocks st')))"

fun precs_loop ::
  "(pystr \<Rightarrow> node) \<Rightarrow> node list \<Rightarrow> master_state \<Rightarrow> world
     \<Rightarrow> (error + master_state) \<times> world" where
  "precs_loop bs [] st w = (Inr st, w)"
| "precs_loop bs (prec # precs) st w =
     (case prec_no_of prec of
        Inl e \<Rightarrow> (Inl e, w)
      | Inr prec_no \<Rightarrow>
          if get_attr prec (ascii ''alt'') = Some nankyoku then precs_loop bs precs st w
          else (case get_page_blocks prec_no w of
                  (Inl e, w1) \<Rightarrow> (Inl e, w1)
                | (Inr content_blocks, w1) \<Rightarrow>
                    (case blocks_loop prec_no (get_attr prec (ascii ''alt''))
                            (find_all (ascii ''area'') (bs content_blocks)) st of
                       Inl e \<Rightarrow> (Inl e, w1)
                     | Inr st' \<Rightarrow> precs_loop bs precs st' w1)))"

text \<open>
  \<open>get_master\<close> returns the frame (writing it to the master file is not part of the
  model).
\<close>

definition get_master :: "(pystr \<Rightarrow> node) \<Rightarrow> world \<Rightarrow> (error + station list) \<times> world" where
  "get_master bs w =
     (case get_page_precs w of
        (Inl e, w1) \<Rightarrow> (Inl e, w1)
      | (Inr content_precs, w1) \<Rightarrow>
          (case precs_loop bs (find_all (ascii ''area'') (bs content_precs)) ({}, []) w1 of
             (Inl e, w2) \<Rightarrow> (Inl e, w2)
           | (Inr st, w2) \<Rightarrow> (Inr (snd st), w2)))"

text \<open>
  The station entries a traversal meets, in traversal order: for every region that is
  not skipped, the observatory entries of its station page, each with the region's
  number and name. \<open>entry_key\<close> and \<open>station_key\<close> are the composite keys of an entry
  and of a row, and \<open>station_row\<close> is the row that the loop builds from an entry.
\<close>

type_synonym entry = "int \<times> pystr \<times> int \<times> pystr \<times> pyfloat \<times> pyfloat"

fun entry_key :: "entry \<Rightarrow> pystr" where
  "entry_key (prec_no, prec_name, block_no, block_name, lat, lng) =
     prec_name @ ascii ''::'' @ block_name"

definition station_key :: "station \<Rightarrow> pystr" where
  "station_key r = st_prec_name r @ ascii ''::'' @ st_block_name r"

fun station_row :: "entry \<Rightarrow> station" where
  "station_row (prec_no, prec_name, block_no, block_name, lat, lng) =
     \<lparr> st_prec_no = prec_no, st_prec_name = prec_name,
       st_block_no = block_no, st_block_name = block_name,
       st_block_name_en =
         (case map_of dict_block_name_en block_name of None \<Rightarrow> [] | Some en \<Rightarrow> en),
       st_lat = lat, st_lng = lng \<rparr>"

fun block_entries :: "int \<Rightarrow> pystr option \<Rightarrow> node list \<Rightarrow> entry list" where
  "block_entries prec_no prec_name [] = []"
| "block_entries prec_no prec_name (block # blocks) =
     (case get_attr block (ascii ''onmouseover'') of
        None \<Rightarrow> block_entries prec_no prec_name blocks
      | Some s \<Rightarrow>
          (case bind_err (block_fields s) parse_block of
             Inr (Some (block_no, block_name, lat, lng)) \<Rightarrow>
               (case prec_name of
                  None \<Rightarrow> block_entries prec_no prec_name blocks
                | Some pn \<Rightarrow>
                    (prec_no, pn, block_no, block_name, lat, lng)
                      # block_entries prec_no prec_name blocks)
           | _ \<Rightarrow> block_entries prec_no prec_name blocks))"

fun precs_entries :: "(pystr \<Rightarrow> node) \<Rightarrow> node list \<Rightarrow> world \<Rightarrow> entry list" where
  "precs_entries bs [] w = []"
| "precs_entries bs (prec # precs) w =
     (case prec_no_of prec of
        Inl e \<Rightarrow> []
      | Inr prec_no \<Rightarrow>
          if get_attr prec (ascii ''alt'') = Some nankyoku then precs_entries bs precs w
          else (case get_page_blocks prec_no w of
                  (Inl e, w1) \<Rightarrow> []
                | (Inr content_blocks, w1) \<Rightarrow>
                    block_entries prec_no (get_attr prec (ascii ''alt''))
                      (find_all (ascii ''area'') (bs content_blocks))
                    @ precs_entries bs precs w1))"

definition master_entries :: "(pystr \<Rightarrow> node) \<Rightarrow> world \<Rightarrow> entry list" where
  "master_entries bs w =
     (case get_page_precs w of
        (Inl e, w1) \<Rightarrow> []
      | (Inr content_precs, w1) \<Rightarrow>
          precs_entries bs (find_all (ascii ''area'') (bs content_precs)) w1)"

text \<open>
  What the table holds for one composite key, said with the entries of the traversal:
  for a key of the target list the row of the first entry with that key, when there is
  one, and otherwise no row.
\<close>

definition rows_for_key :: "pystr \<Rightarrow> entry list \<Rightarrow> station list" where
  "rows_for_key k es =
     (if k \<in> set prec_blocks_target
      then (case find (\<lambda>e. entry_key e = k) es of None \<Rightarrow> [] | Some e \<Rightarrow> [station_row e])
      else [])"

text \<open>The rows of a returned master table (none when the call raised).\<close>

definition stations_of :: "(error + station list) \<times> world \<Rightarrow> station list" where
  "stations_of r = (case fst r of Inl e \<Rightarrow> [] | Inr rows \<Rightarrow> rows)"

section \<open>scrape.py: the day-page parser\<close>

text \<open>
  One row of the frame \<open>get_df_block_date\<close> returns. The fields are, in the order of
  the source: region number, station number, date, hour, precipitation, temperature,
  humidity, wind speed, snowfall, snow depth and weather. The weather is
  \<open>img.get('alt')\<close>, which can be \<open>None\<close>.
\<close>

record obs =
  prec_no :: int
  block_no :: int
  ymd :: pystr
  hour :: pystr
  precip :: pystr
  temp :: pystr
  humid :: pystr
  wind :: pystr
  snowfall :: pystr
  snow :: pystr
  weather :: "pystr option"

definition data_row :: "int \<Rightarrow> int \<Rightarrow> int \<Rightarrow> int \<Rightarrow> int \<Rightarrow> node list \<Rightarrow> obs" where
  "data_row p b year month day cols =
     \<lparr> prec_no = p, block_no = b,
       ymd = str_int year @ fmt02 month @ fmt02 day,
       hour = get_text (cols ! 0),
       precip = get_text (cols ! 3),
       temp = get_text (cols ! 4),
       humid = get_text (cols ! 7),
       wind = get_text (cols ! 8),
       snowfall = get_text (cols ! 12),
       snow = get_text (cols ! 13),
       weather = (case find_first (ascii ''img'') (cols ! 14) of
                    None \<Rightarrow> Some []
                  | Some img \<Rightarrow> get_attr img (ascii ''alt'')) \<rparr>"

text \<open>
  The two loops of \<open>get_df_block_date\<close>: over the tables with exactly 26 rows, and in
  each over the rows with exactly 17 cells (so every index used by \<open>data_row\<close> is in
  range).
\<close>

definition table_rows :: "int \<Rightarrow> int \<Rightarrow> int \<Rightarrow> int \<Rightarrow> int \<Rightarrow> node \<Rightarrow> obs list" where
  "table_rows p b year month day table =
     (let rows = find_all (ascii ''tr'') table in
      if length rows \<noteq> 26 then []
      else map (\<lambda>row. data_row p b year month day (find_all (ascii ''td'') row))
             (filter (\<lambda>row. length (find_all (ascii ''td'') row) = 17) rows))"

definition soup_rows :: "int \<Rightarrow> int \<Rightarrow> int \<Rightarrow> int \<Rightarrow> int \<Rightarrow> node \<Rightarrow> obs list" where
  "soup_rows p b year month day soup =
     concat (map (table_rows p b year month day) (find_all (ascii ''table'') soup))"

definition get_df_block_date ::
  "(pystr \<Rightarrow> node) \<Rightarrow> int \<Rightarrow> int \<Rightarrow> int \<Rightarrow> int \<Rightarrow> int \<Rightarrow> world
     \<Rightarrow> (error + obs list) \<times> world" where
  "get_df_block_date bs p b year month day w =
     (case get_page_block_date p b year month day w of
        (Inl e, w') \<Rightarrow> (Inl e, w')
      | (Inr content, w') \<Rightarrow> (Inr (soup_rows p b year month day (bs content)), w'))"

section \<open>scrape.py: archives\<close>

text \<open>
  \<open>compress_impl\<close>. \<open>tarfile.open(tar_gz_file, 'w:gz')\<close> creates the archive empty,
  replacing an older one, or raises. Each \<open>tar.add\<close> reads the loose file and appends
  it under its own name; it raises when the file does not exist or the device fails.
  Leaving the \<open>with\<close> block normally closes the archive, which writes its end and
  flushes the compressed stream, and can raise as well. Every exception leaves the
  archive truncated, holding the members added so far, and passes on, so that the
  removal loop is not reached. \<open>unlink\<close> raises when the file does not exist.
\<close>

fun tar_add_files ::
  "pystr \<Rightarrow> pystr list \<Rightarrow> (pystr \<times> pystr) list \<Rightarrow> world
     \<Rightarrow> (error + unit) \<times> (pystr \<times> pystr) list" where
  "tar_add_files tgz [] members w = (Inr (), members)"
| "tar_add_files tgz (filename # rest) members w =
     (case cache w filename of
        None \<Rightarrow> (Inl FileNotFoundError, members)
      | Some content \<Rightarrow>
          if AddTar tgz filename \<in> failing w then (Inl OSError, members)
          else tar_add_files tgz rest (members @ [(filename, content)]) w)"

definition write_archive :: "pystr \<Rightarrow> pystr list \<Rightarrow> world \<Rightarrow> (error + unit) \<times> world" where
  "write_archive tar_gz_file cache_files w =
     (if OpenTar tar_gz_file \<in> failing w then (Inl OSError, w)
      else (case tar_add_files tar_gz_file cache_files [] w of
              (Inl e, members) \<Rightarrow>
                (Inl e, w\<lparr>tars := (tars w)(tar_gz_file \<mapsto> Truncated members)\<rparr>)
            | (Inr _, members) \<Rightarrow>
                if CloseTar tar_gz_file \<in> failing w
                then (Inl OSError, w\<lparr>tars := (tars w)(tar_gz_file \<mapsto> Truncated members)\<rparr>)
                else (Inr (), w\<lparr>tars := (tars w)(tar_gz_file \<mapsto> Archive members)\<rparr>)))"

fun unlink_files :: "pystr list \<Rightarrow> world \<Rightarrow> (error + unit) \<times> world" where
  "unlink_files [] w = (Inr (), w)"
| "unlink_files (filename # rest) w =
     (case cache w filename of
        None \<Rightarrow> (Inl FileNotFoundError, w)
      | Some _ \<Rightarrow> unlink_files rest (w\<lparr>cache := (cache w)(filename := None)\<rparr>))"

definition compress_impl ::
  "pystr \<Rightarrow> pystr list \<Rightarrow> bool \<Rightarrow> world \<Rightarrow> (error + unit) \<times> world" where
  "compress_impl tar_gz_file cache_files remove_cache w =
     (case write_archive tar_gz_file cache_files w of
        (Inl e, w1) \<Rightarrow> (Inl e, w1)
      | (Inr _, w1) \<Rightarrow> if remove_cache then unlink_files cache_files w1 else (Inr (), w1))"

text \<open>
  \<open>extract_impl\<close>: nothing when the archive does not exist; otherwise
  \<open>extractall\<close> writes every member into \<open>cache/\<close> in archive order, replacing a
  loose file of the same name. (The members are plain file names of \<open>cache/\<close>, which
  the \<open>data\<close> filter accepts.) On a truncated archive \<open>tarfile\<close> raises, after the
  members that reached the disk have been written.
\<close>

definition extract_members :: "(pystr \<rightharpoonup> pystr) \<Rightarrow> (pystr \<times> pystr) list \<Rightarrow> (pystr \<rightharpoonup> pystr)" where
  "extract_members files members = foldl (\<lambda>c (name, content). c(name \<mapsto> content)) files members"

definition extract_impl :: "pystr \<Rightarrow> world \<Rightarrow> (error + unit) \<times> world" where
  "extract_impl tar_gz_file w =
     (case tars w tar_gz_file of
        None \<Rightarrow> (Inr (), w)
      | Some (Archive members) \<Rightarrow> (Inr (), w\<lparr>cache := extract_members (cache w) members\<rparr>)
      | Some (Truncated members) \<Rightarrow>
          (Inl ReadError,
           w\<lparr>cache := extract_members (cache w) (take (salvage w tar_gz_file) members)\<rparr>))"

section \<open>scrape.py: the month buckets\<close>

text \<open>
  A \<open>datetime\<close> at midnight is a calendar date of the proleptic Gregorian calendar with
  a year from 1 to 9999. \<open>toordinal\<close> is the day number CPython computes;
  \<open>(end - start).days\<close> is the difference of the day numbers.
  \<open>start + timedelta(days=i)\<close> is the date \<open>i\<close> days later, and raises
  \<open>OverflowError\<close> past 9999-12-31.
\<close>

datatype date = Date (year: nat) (month: nat) (day: nat)

definition is_leap :: "nat \<Rightarrow> bool" where
  "is_leap y \<longleftrightarrow> y mod 4 = 0 \<and> (y mod 100 \<noteq> 0 \<or> y mod 400 = 0)"

definition days_in_month :: "nat \<Rightarrow> nat \<Rightarrow> nat" where
  "days_in_month y m =
     (if m = 2 then (if is_leap y then 29 else 28)
      else if m = 4 \<or> m = 6 \<or> m = 9 \<or> m = 11 then 30 else 31)"

fun valid_date :: "date \<Rightarrow> bool" where
  "valid_date (Date y m d) \<longleftrightarrow>
     1 \<le> y \<and> y \<le> 9999 \<and> 1 \<le> m \<and> m \<le> 12 \<and> 1 \<le> d \<and> d \<le> days_in_month y m"

definition days_before_year :: "nat \<Rightarrow> nat" where
  "days_before_year y = (y - 1) * 365 + (y - 1) div 4 - (y - 1) div 100 + (y - 1) div 400"

definition days_before_month :: "nat \<Rightarrow> nat \<Rightarrow> nat" where
  "days_before_month y m = sum_list (map (days_in_month y) [1..<m])"

fun toordinal :: "date \<Rightarrow> nat" where
  "toordinal (Date y m d) = days_before_year y + days_before_month y m + d"

fun next_day :: "date \<Rightarrow> date" where
  "next_day (Date y m d) =
     (if d < days_in_month y m then Date y m (d + 1)
      else if m < 12 then Date y (m + 1) 1
      else Date (y + 1) 1 1)"

fun add_days :: "date \<Rightarrow> nat \<Rightarrow> error + date" where
  "add_days dt 0 = Inr dt"
| "add_days dt (Suc i) =
     (if dt = Date 9999 12 31 then Inl OverflowError else add_days (next_day dt) i)"

text \<open>
  \<open>strftime('%Y-%m-%d')\<close>: month and day are zero-padded to two digits. The year is
  written as the C library writes it: from the year 1000 on that is its four digits, and
  for a smaller year the C library of Linux writes its digits without padding.
\<close>

definition strftime :: "date \<Rightarrow> pystr" where
  "strftime dt =
     str_nat (year dt) @ ascii ''-'' @ fmt02 (int (month dt)) @ ascii ''-'' @ fmt02 (int (day dt))"

text \<open>
  The dictionary of \<open>get_dates\<close> keeps its keys in insertion order: a list of keys with
  their date lists. One turn of the loop creates the month's entry when the key is new
  and appends the date to the key's list.
\<close>

type_synonym dic_dates = "(pystr \<times> pystr list) list"

definition add_date :: "dic_dates \<Rightarrow> pystr \<Rightarrow> dic_dates" where
  "add_date dic_dates dt =
     (let year_month = take 7 dt;
          dic1 = (if year_month \<notin> set (map fst dic_dates)
                  then dic_dates @ [(year_month, [])] else dic_dates)
      in map (\<lambda>(k, v). if k = year_month then (k, v @ [dt]) else (k, v)) dic1)"

fun get_dates_loop :: "date \<Rightarrow> nat list \<Rightarrow> dic_dates \<Rightarrow> error + dic_dates" where
  "get_dates_loop start [] dic_dates = Inr dic_dates"
| "get_dates_loop start (i # rest) dic_dates =
     (case add_days start i of
        Inl e \<Rightarrow> Inl e
      | Inr dt \<Rightarrow> get_dates_loop start rest (add_date dic_dates (strftime dt)))"

text \<open>
  \<open>get_dates\<close> on the two dates \<open>strptime\<close> has parsed. \<open>range(n)\<close> is empty for
  \<open>n \<le> 0\<close>.
\<close>

definition get_dates :: "date \<Rightarrow> date \<Rightarrow> error + dic_dates" where
  "get_dates start end_date =
     get_dates_loop start
       [0 ..< nat (int (toordinal end_date) - int (toordinal start) + 1)] []"

text \<open>The calendar order of dates, to state what the buckets hold.\<close>

fun date_less :: "date \<Rightarrow> date \<Rightarrow> bool" where
  "date_less (Date y1 m1 d1) (Date y2 m2 d2) \<longleftrightarrow>
     y1 < y2 \<or> (y1 = y2 \<and> (m1 < m2 \<or> (m1 = m2 \<and> d1 < d2)))"

definition date_le :: "date \<Rightarrow> date \<Rightarrow> bool" where
  "date_le a b \<longleftrightarrow> a = b \<or> date_less a b"

text \<open>
  What the buckets of a list of date texts are: the date lists of the dictionary, in
  the order of the keys, give the list when they are put end to end; no key occurs
  twice; and every date of a key's list has the key as its first seven characters (no
  list is empty).
\<close>

definition month_buckets :: "dic_dates \<Rightarrow> pystr list \<Rightarrow> bool" where
  "month_buckets dic xs \<longleftrightarrow>
     concat (map snd dic) = xs \<and> distinct (map fst dic)
     \<and> (\<forall>(k, v)\<in>set dic. v \<noteq> [] \<and> (\<forall>x\<in>set v. take 7 x = k))"

text \<open>
  The place of a date's key in calendar order: the first seven characters of the date
  text hold the year and the month, and of the day both digits for a year of one digit,
  the first digit for a year of two digits, and nothing for a longer year.
\<close>

definition key_rank :: "date \<Rightarrow> nat" where
  "key_rank dt =
     (year dt * 12 + month dt) * 32
     + (if year dt < 10 then day dt else if year dt < 100 then day dt div 10 else 0)"

text \<open>
  The cell lists of the rows that \<open>get_df_block_date\<close> turns into observations, in
  document order: of every table with exactly 26 rows, the rows with exactly 17 cells.
  \<open>obs_key\<close> is the quadruple of region number, station number, date and hour of a
  row, and \<open>rows_of\<close> the rows of a returned frame (none when the call raised).
\<close>

definition data_cells :: "node \<Rightarrow> node list list" where
  "data_cells soup =
     concat (map (\<lambda>table.
         if length (find_all (ascii ''tr'') table) = 26
         then filter (\<lambda>cols. length cols = 17)
                (map (find_all (ascii ''td'')) (find_all (ascii ''tr'') table))
         else [])
       (find_all (ascii ''table'') soup))"

definition obs_key :: "obs \<Rightarrow> int \<times> int \<times> pystr \<times> pystr" where
  "obs_key r = (prec_no r, block_no r, ymd r, hour r)"

definition rows_of :: "(error + obs list) \<times> world \<Rightarrow> obs list" where
  "rows_of res = (case fst res of Inl e \<Rightarrow> [] | Inr rows \<Rightarrow> rows)"

subsection \<open>Example pages\<close>

text \<open>
  Pages in the layout of the hourly page: a table of header rows and data rows of 17
  cells, the hour in cell 0 and the weather icon in cell 14. A data row is given by its
  hour text and the attributes of its icon. \<open>const_bs soup\<close> is a parser that returns
  \<open>soup\<close>, and \<open>cached_world page\<close> a state in which every page is in the cache with
  the text \<open>page\<close>.
\<close>

definition header_row :: node where
  "header_row = Tag (ascii ''tr'') [] [Tag (ascii ''th'') [] [Text (ascii ''h'')]]"

definition text_cell :: "pystr \<Rightarrow> node" where
  "text_cell t = Tag (ascii ''td'') [] [Text t]"

definition icon_cell :: "(pystr \<times> pystr) list \<Rightarrow> node" where
  "icon_cell attrs = Tag (ascii ''td'') [] [Tag (ascii ''img'') attrs []]"

definition example_cells :: "pystr \<times> (pystr \<times> pystr) list \<Rightarrow> node list" where
  "example_cells spec =
     text_cell (fst spec) # replicate 13 (text_cell (ascii ''0.0'')) @ [icon_cell (snd spec)]
       @ replicate 2 (text_cell (ascii ''--''))"

definition example_row :: "pystr \<times> (pystr \<times> pystr) list \<Rightarrow> node" where
  "example_row spec = Tag (ascii ''tr'') [] (example_cells spec)"

definition example_table :: "(pystr \<times> (pystr \<times> pystr) list) list \<Rightarrow> node" where
  "example_table specs =
     Tag (ascii ''table'') []
       (replicate (26 - length specs) header_row @ map example_row specs)"

definition day_page :: "node list \<Rightarrow> node" where
  "day_page tables = Tag (ascii ''html'') [] tables"

definition sunny :: "(pystr \<times> pystr) list" where
  "sunny = [(ascii ''src'', ascii ''sun.gif''), (ascii ''alt'', ascii ''sunny'')]"

definition hourly_table :: node where
  "hourly_table = example_table (map (\<lambda>h. (str_nat h, sunny)) [1 ..< 25])"

definition const_bs :: "node \<Rightarrow> pystr \<Rightarrow> node" where
  "const_bs soup content = soup"

definition cached_world :: "pystr \<Rightarrow> world" where
  "cached_world page =
     \<lparr> cache = (\<lambda>name. Some page), tars = Map.empty, net = (\<lambda>url. Inl HTTPError),
       requested = [], failing = {}, salvage = (\<lambda>name. 0) \<rparr>"

text \<open>
  Pages of the station master. \<open>region_area n name\<close> is an \<open>area\<close> element of the
  region page, with the region name as \<open>alt\<close> and the region number in \<open>href\<close>;
  \<open>station_area li\<close> is an \<open>area\<close> element of a station page whose
  \<open>onmouseover\<close> text is \<open>javascript:viewPoint('...','...',...);\<close> with the fields
  \<open>li\<close>; \<open>map_page\<close> is a page holding such elements. \<open>tokyo_fields\<close> are the
  fields of an observatory entry of Tokyo with a given station number, and
  \<open>wakkanai_fields\<close> those of the observatory of Wakkanai. \<open>tokyo_page\<close> has two
  entries of Tokyo with different station numbers, \<open>wakkanai_page\<close> the entry of
  Wakkanai twice.
\<close>

definition quoted :: "pystr \<Rightarrow> pystr" where
  "quoted s = 39 # s @ [39]"

fun join_commas :: "pystr list \<Rightarrow> pystr" where
  "join_commas [] = []"
| "join_commas [x] = x"
| "join_commas (x # y # zs) = x @ 44 # join_commas (y # zs)"

definition station_area :: "pystr list \<Rightarrow> node" where
  "station_area li =
     Tag (ascii ''area'')
       [(ascii ''onmouseover'',
         ascii ''javascript:viewPoint('' @ join_commas (map quoted li) @ ascii '');'')] []"

definition region_area :: "int \<Rightarrow> pystr \<Rightarrow> node" where
  "region_area n name =
     Tag (ascii ''area'')
       [(ascii ''alt'', name),
        (ascii ''href'', ascii ''prefecture.php?prec_no='' @ str_int n
           @ ascii ''&block_no=&year=&month=&day=&view='')] []"

definition map_page :: "node list \<Rightarrow> node" where
  "map_page areas = Tag (ascii ''map'') [] areas"

definition tokyo_fields :: "pystr \<Rightarrow> pystr list" where
  "tokyo_fields number =
     [ascii ''s'', number, [26481, 20140], ascii ''x'',
      ascii ''35'', ascii ''41.5'', ascii ''139'', ascii ''45.0'']"

definition wakkanai_fields :: "pystr list" where
  "wakkanai_fields =
     [ascii ''s'', ascii ''47401'', [31258, 20869], ascii ''x'',
      ascii ''45'', ascii ''24.9'', ascii ''141'', ascii ''40.7'']"

definition tokyo_page :: node where
  "tokyo_page =
     map_page [station_area (tokyo_fields (ascii ''47662'')),
               station_area (tokyo_fields (ascii ''47663''))]"

definition wakkanai_page :: node where
  "wakkanai_page = map_page [station_area wakkanai_fields, station_area wakkanai_fields]"

subsection \<open>Example states\<close>

text \<open>
  \<open>example_world files response bad\<close>: the loose files \<open>files\<close> (name and text), no
  archive, a service that answers every request with \<open>response\<close>, no request made so
  far, the write operations \<open>bad\<close> failing, and nothing of a failed write reaching the
  disk.
\<close>

definition example_world :: "(pystr \<times> pystr) list \<Rightarrow> error + pystr \<Rightarrow> io_op set \<Rightarrow> world" where
  "example_world files response bad =
     \<lparr> cache = map_of files, tars = Map.empty, net = (\<lambda>url. response),
       requested = [], failing = bad, salvage = (\<lambda>name. 0) \<rparr>"

text \<open>
  \<open>master_world\<close> has the region page and the station page of region 44 in the cache,
  with the texts \<open>P\<close> and \<open>B\<close>; \<open>master_bs precs blocks\<close> is a parser that reads
  the first as the page \<open>precs\<close> and every other text as the page \<open>blocks\<close>.
\<close>

definition master_world :: world where
  "master_world =
     example_world [(ascii ''prefectures.txt'', ascii ''P''),
                    (ascii ''prefecture_44.txt'', ascii ''B'')] (Inl HTTPError) {}"

definition master_bs :: "node \<Rightarrow> node \<Rightarrow> pystr \<Rightarrow> node" where
  "master_bs precs blocks content = (if content = ascii ''P'' then precs else blocks)"

section \<open>Properties\<close>

subsection \<open>Numeric coercion\<close>

lemmas float_eval_defs =
  py_float_def float_of_str_def ascii_def strip_def is_space_def is_digit_def
  parse_sign_def lower_def parse_number_def parse_exponent_def digits_val_def scale10_def

lemma py_float_raises: "py_float v = Inl e \<Longrightarrow> e = ValueError \<or> e = TypeError"
  by (cases v) (auto simp: py_float_def float_of_str_def Let_def
      split: if_splits prod.splits option.splits)

lemma to_numeric_safe_total: "\<exists>f. to_numeric_safe v = Inr f"
proof (cases "py_float v")
  case (Inl e)
  with py_float_raises [of v e] show ?thesis
    by (auto simp: to_numeric_safe_def)
next
  case (Inr f)
  then show ?thesis by (simp add: to_numeric_safe_def)
qed

text \<open>
  C9. \<open>to_numeric_safe\<close> returns a float for every cell value (a text, a float or
  \<open>None\<close>) and never raises; the texts \<open>--\<close> and the empty text give NaN, and the
  text \<open>12.3\<close> gives the number 12.3.
\<close>

theorem to_numeric_safe_coercion:
  "(\<forall>v. \<exists>f. to_numeric_safe v = Inr f)
   \<and> to_numeric_safe (Str (ascii ''--'')) = Inr NaN
   \<and> to_numeric_safe (Str []) = Inr NaN
   \<and> to_numeric_safe (Str (ascii ''12.3'')) = Inr (Fin (123 / 10))"
proof -
  have a: "\<forall>v. \<exists>f. to_numeric_safe v = Inr f"
    using to_numeric_safe_total by blast
  have b: "to_numeric_safe (Str (ascii ''--'')) = Inr NaN"
    by (simp add: to_numeric_safe_def float_eval_defs)
  have c: "to_numeric_safe (Str []) = Inr NaN"
    by (simp add: to_numeric_safe_def float_eval_defs)
  have d: "to_numeric_safe (Str (ascii ''12.3'')) = Inr (Fin (123 / 10))"
    by (simp add: to_numeric_safe_def float_eval_defs)
  from a b c d show ?thesis by blast
qed

subsection \<open>The day-page parser\<close>

lemma table_rows_cells:
  "table_rows p b y m d =
   (\<lambda>table. map (data_row p b y m d)
     (if length (find_all (ascii ''tr'') table) = 26
      then filter (\<lambda>cols. length cols = 17)
             (map (find_all (ascii ''td'')) (find_all (ascii ''tr'') table))
      else []))"
  by (rule ext) (simp add: table_rows_def Let_def filter_map comp_def)

lemma soup_rows_data_cells:
  "soup_rows p b y m d soup = map (data_row p b y m d) (data_cells soup)"
  by (simp add: soup_rows_def data_cells_def map_concat comp_def table_rows_cells)

lemma get_df_block_date_rows:
  "get_page_block_date p b y m d w = (Inr content, w') \<Longrightarrow>
   get_df_block_date bs p b y m d w =
     (Inr (map (data_row p b y m d) (data_cells (bs content))), w')"
  by (simp add: get_df_block_date_def soup_rows_data_cells)

lemma cached_page:
  "get_page_block_date p b y m d (cached_world page) =
     (Inr (universal_newlines page), cached_world page)"
  by (simp add: get_page_block_date_def get_page_def cached_world_def)

lemma str_nat_small: "n < 10 \<Longrightarrow> str_nat n = [48 + n]"
  by (simp add: str_nat.simps)

lemma str_nat_step: "10 \<le> n \<Longrightarrow> str_nat n = str_nat (n div 10) @ [48 + n mod 10]"
  by (subst str_nat.simps) simp

lemma length_str_nat_1: "n < 10 \<Longrightarrow> length (str_nat n) = 1"
  by (simp add: str_nat_small)

lemma length_str_nat_2: "10 \<le> n \<Longrightarrow> n < 100 \<Longrightarrow> length (str_nat n) = 2"
  by (simp add: str_nat_step length_str_nat_1)

lemma length_str_nat_3: "100 \<le> n \<Longrightarrow> n < 1000 \<Longrightarrow> length (str_nat n) = 3"
  by (simp add: str_nat_step [of n] length_str_nat_2)

lemma length_str_nat_4: "1000 \<le> n \<Longrightarrow> n < 10000 \<Longrightarrow> length (str_nat n) = 4"
  by (simp add: str_nat_step [of n] length_str_nat_3)

lemma length_fmt02: "0 \<le> i \<Longrightarrow> i \<le> 99 \<Longrightarrow> length (fmt02 i) = 2"
proof -
  assume a: "0 \<le> i" "i \<le> 99"
  show ?thesis
  proof (cases "nat i < 10")
    case True
    with a show ?thesis by (simp add: fmt02_def length_str_nat_1)
  next
    case False
    with a have "10 \<le> nat i" "nat i < 100" by auto
    with a show ?thesis by (simp add: fmt02_def length_str_nat_2)
  qed
qed

lemma length_ymd:
  assumes "1000 \<le> y" "y \<le> 9999" "0 \<le> m" "m \<le> 99" "0 \<le> d" "d \<le> 99"
  shows "length (str_int y @ fmt02 m @ fmt02 d) = 8"
proof -
  have "length (str_int y) = 4"
    using assms by (simp add: str_int_def length_str_nat_4)
  moreover have "length (fmt02 m) = 2" using assms by (simp add: length_fmt02)
  moreover have "length (fmt02 d) = 2" using assms by (simp add: length_fmt02)
  ultimately show ?thesis by simp
qed

lemma data_cells_single:
  assumes "filter (\<lambda>t. length (find_all (ascii ''tr'') t) = 26) (find_all (ascii ''table'') soup)
           = [table]"
  shows "data_cells soup =
         map (find_all (ascii ''td''))
           (filter (\<lambda>r. length (find_all (ascii ''td'') r) = 17) (find_all (ascii ''tr'') table))"
proof -
  let ?P = "\<lambda>t. length (find_all (ascii ''tr'') t) = 26"
  let ?g = "\<lambda>t. filter (\<lambda>cols. length cols = 17)
                (map (find_all (ascii ''td'')) (find_all (ascii ''tr'') t))"
  have gen: "concat (map (\<lambda>t. if ?P t then ?g t else []) ts) = concat (map ?g (filter ?P ts))"
    for ts
    by (induction ts) simp_all
  have "data_cells soup = concat (map ?g (filter ?P (find_all (ascii ''table'') soup)))"
    unfolding data_cells_def by (rule gen)
  also have "\<dots> = ?g table" using assms by simp
  finally show ?thesis by (simp add: filter_map comp_def)
qed
subsection \<open>Evaluating the example pages\<close>

lemma find_all_Tag:
  "find_all name (Tag n a cs) =
     concat (map (\<lambda>c. (if is_tag name c then [c] else []) @ find_all name c) cs)"
  by (induction cs) (simp_all add: find_all_def)

lemma find_all_Text: "find_all name (Text t) = []"
  by (simp add: find_all_def)

lemma find_all_children:
  assumes "\<And>c. c \<in> set cs \<Longrightarrow> is_tag name c \<and> find_all name c = []"
  shows "find_all name (Tag n a cs) = cs"
  unfolding find_all_Tag using assms by (induction cs) simp_all

lemma find_all_none:
  assumes "\<And>c. c \<in> set cs \<Longrightarrow> \<not> is_tag name c \<and> find_all name c = []"
  shows "find_all name (Tag n a cs) = []"
  unfolding find_all_Tag using assms by (induction cs) simp_all

lemma find_all_text_cell: "find_all name (text_cell t) = []"
  by (simp add: text_cell_def find_all_Tag find_all_Text)

lemma find_all_icon_cell:
  "find_all name (icon_cell a) = (if name = ascii ''img'' then [Tag (ascii ''img'') a []] else [])"
  by (simp add: icon_cell_def find_all_Tag)

lemma is_tag_cells:
  "is_tag name (text_cell t) = (name = ascii ''td'')"
  "is_tag name (icon_cell a) = (name = ascii ''td'')"
  by (auto simp: text_cell_def icon_cell_def)

lemma example_cells_members:
  "c \<in> set (example_cells spec) \<Longrightarrow> (\<exists>t. c = text_cell t) \<or> (\<exists>a. c = icon_cell a)"
  by (auto simp: example_cells_def)

lemma td_example_row: "find_all (ascii ''td'') (example_row spec) = example_cells spec"
  unfolding example_row_def
proof (rule find_all_children)
  fix c assume "c \<in> set (example_cells spec)"
  from example_cells_members [OF this]
  show "is_tag (ascii ''td'') c \<and> find_all (ascii ''td'') c = []"
    by (auto simp: is_tag_cells find_all_text_cell find_all_icon_cell ascii_def)
qed

lemma no_rows_in_example_row:
  assumes "name = ascii ''tr'' \<or> name = ascii ''table''"
  shows "find_all name (example_row spec) = []"
  unfolding example_row_def
proof (rule find_all_none)
  fix c assume "c \<in> set (example_cells spec)"
  from example_cells_members [OF this] assms
  show "\<not> is_tag name c \<and> find_all name c = []"
    by (auto simp: is_tag_cells find_all_text_cell find_all_icon_cell ascii_def)
qed

lemma find_all_header_row:
  "find_all name header_row = (if name = ascii ''th'' then [Tag (ascii ''th'') [] [Text (ascii ''h'')]] else [])"
  by (simp add: header_row_def find_all_Tag find_all_Text)

lemma length_example_cells: "length (example_cells spec) = 17"
  by (simp add: example_cells_def)

lemma tr_example_table:
  "find_all (ascii ''tr'') (example_table specs) =
     replicate (26 - length specs) header_row @ map example_row specs"
  unfolding example_table_def
proof (rule find_all_children)
  fix c
  assume "c \<in> set (replicate (26 - length specs) header_row @ map example_row specs)"
  then have "c = header_row \<or> (\<exists>s. c = example_row s)" by auto
  then show "is_tag (ascii ''tr'') c \<and> find_all (ascii ''tr'') c = []"
  proof
    assume "c = header_row"
    then show ?thesis
      by (simp add: find_all_header_row) (simp add: header_row_def ascii_def)
  next
    assume "\<exists>s. c = example_row s"
    then obtain s where "c = example_row s" ..
    then show ?thesis
      by (simp add: no_rows_in_example_row) (simp add: example_row_def)
  qed
qed

lemma no_table_in_example_table: "find_all (ascii ''table'') (example_table specs) = []"
  unfolding example_table_def
proof (rule find_all_none)
  fix c
  assume "c \<in> set (replicate (26 - length specs) header_row @ map example_row specs)"
  then have "c = header_row \<or> (\<exists>s. c = example_row s)" by auto
  then show "\<not> is_tag (ascii ''table'') c \<and> find_all (ascii ''table'') c = []"
  proof
    assume "c = header_row"
    then show ?thesis
      by (simp add: find_all_header_row) (simp add: header_row_def ascii_def)
  next
    assume "\<exists>s. c = example_row s"
    then obtain s where "c = example_row s" ..
    then show ?thesis
      by (simp add: no_rows_in_example_row) (simp add: example_row_def ascii_def)
  qed
qed

lemma tables_day_page:
  "find_all (ascii ''table'') (day_page (map example_table tss)) = map example_table tss"
  unfolding day_page_def
proof (rule find_all_children)
  fix c assume "c \<in> set (map example_table tss)"
  then obtain specs where "c = example_table specs" by auto
  then show "is_tag (ascii ''table'') c \<and> find_all (ascii ''table'') c = []"
    by (simp add: no_table_in_example_table) (simp add: example_table_def)
qed

lemma data_rows_example_table:
  "filter (\<lambda>r. length (find_all (ascii ''td'') r) = 17)
     (find_all (ascii ''tr'') (example_table specs)) = map example_row specs"
proof -
  have "filter (\<lambda>r. length (find_all (ascii ''td'') r) = 17) (map example_row ss)
        = map example_row ss" for ss
    by (induction ss) (simp_all add: td_example_row length_example_cells)
  moreover have "ascii ''td'' \<noteq> ascii ''th''" by (simp add: ascii_def)
  ultimately show ?thesis
    by (simp add: tr_example_table find_all_header_row)
qed

lemma length_rows_example_table:
  "length specs \<le> 26 \<Longrightarrow> length (find_all (ascii ''tr'') (example_table specs)) = 26"
  by (simp add: tr_example_table)

lemma candidate_example_tables:
  assumes "\<And>specs. specs \<in> set tss \<Longrightarrow> length specs \<le> 26"
  shows "filter (\<lambda>t. length (find_all (ascii ''tr'') t) = 26)
           (find_all (ascii ''table'') (day_page (map example_table tss))) = map example_table tss"
  unfolding tables_day_page using assms
  by (induction tss) (simp_all add: length_rows_example_table)

lemma data_cells_example:
  assumes "\<And>specs. specs \<in> set tss \<Longrightarrow> length specs \<le> 26"
  shows "data_cells (day_page (map example_table tss)) = concat (map (map example_cells) tss)"
proof -
  have one: "length specs \<le> 26 \<Longrightarrow>
      (if length (find_all (ascii ''tr'') (example_table specs)) = 26
       then filter (\<lambda>cols. length cols = 17)
              (map (find_all (ascii ''td'')) (find_all (ascii ''tr'') (example_table specs)))
       else []) = map example_cells specs" for specs
  proof -
    assume l: "length specs \<le> 26"
    have "filter (\<lambda>cols. length cols = 17)
              (map (find_all (ascii ''td'')) (find_all (ascii ''tr'') (example_table specs)))
          = map (find_all (ascii ''td''))
              (filter (\<lambda>r. length (find_all (ascii ''td'') r) = 17)
                 (find_all (ascii ''tr'') (example_table specs)))"
      by (simp add: filter_map comp_def)
    also have "\<dots> = map example_cells specs"
      by (simp add: data_rows_example_table td_example_row)
    finally show ?thesis using l by (simp add: length_rows_example_table)
  qed
  show ?thesis
    unfolding data_cells_def tables_day_page using assms
    by (induction tss) (simp_all add: one)
qed

lemma example_cells_nth:
  "example_cells spec ! 0 = text_cell (fst spec)"
  "example_cells spec ! 14 = icon_cell (snd spec)"
  by (simp_all add: example_cells_def nth_append nth_Cons')

lemma get_text_text_cell: "get_text (text_cell t) = t"
  by (simp add: text_cell_def)

lemma find_first_icon: "find_first (ascii ''img'') (icon_cell a) = Some (Tag (ascii ''img'') a [])"
  by (simp add: find_first_def find_all_icon_cell)

lemma length_hourly_specs: "length (map (\<lambda>h. (str_nat h, sunny)) [1 ..< 25]) = 24"
  by simp

lemma rows_of_cached:
  "rows_of (get_df_block_date (const_bs soup) p b y m d (cached_world page)) =
     map (data_row p b y m d) (data_cells soup)"
  by (simp add: get_df_block_date_rows [OF cached_page] rows_of_def const_bs_def)

lemma ymd_20240101: "str_int 2024 @ fmt02 1 @ fmt02 1 = ascii ''20240101''"
  by (simp add: str_int_def fmt02_def str_nat.simps ascii_def)



lemma ymd_9990101: "str_int 999 @ fmt02 1 @ fmt02 1 = [57, 57, 57, 48, 49, 48, 49]"
  by (simp add: str_int_def fmt02_def str_nat.simps)

text \<open>
  C8 (as amended). When the page has exactly one table with exactly 26 rows, and
  exactly 24 of that table's rows have exactly 17 cells, \<open>get_df_block_date\<close> returns
  exactly 24 observations, one per such row in order. Each carries the queried region
  number and station number and the date written as the year followed by month and day
  padded with zeros to two characters, and takes hour, precipitation, temperature,
  humidity, wind speed, snowfall and snow depth from the cells 0, 3, 4, 7, 8, 12 and 13.
  The date has 8 characters whenever the year has four digits and neither month nor
  day has more than two.
\<close>

theorem get_df_block_date_single_table:
  assumes page: "get_page_block_date p b y m d w = (Inr content, w')"
    and one: "filter (\<lambda>t. length (find_all (ascii ''tr'') t) = 26)
                (find_all (ascii ''table'') (bs content)) = [table]"
    and rows17: "filter (\<lambda>r. length (find_all (ascii ''td'') r) = 17)
                (find_all (ascii ''tr'') table) = data_rows"
    and n24: "length data_rows = 24"
  shows "\<exists>rows. get_df_block_date bs p b y m d w = (Inr rows, w')
      \<and> length rows = 24
      \<and> (\<forall>i<24.
            prec_no (rows ! i) = p \<and> block_no (rows ! i) = b
          \<and> ymd (rows ! i) = str_int y @ fmt02 m @ fmt02 d
          \<and> hour (rows ! i) = get_text (find_all (ascii ''td'') (data_rows ! i) ! 0)
          \<and> precip (rows ! i) = get_text (find_all (ascii ''td'') (data_rows ! i) ! 3)
          \<and> temp (rows ! i) = get_text (find_all (ascii ''td'') (data_rows ! i) ! 4)
          \<and> humid (rows ! i) = get_text (find_all (ascii ''td'') (data_rows ! i) ! 7)
          \<and> wind (rows ! i) = get_text (find_all (ascii ''td'') (data_rows ! i) ! 8)
          \<and> snowfall (rows ! i) = get_text (find_all (ascii ''td'') (data_rows ! i) ! 12)
          \<and> snow (rows ! i) = get_text (find_all (ascii ''td'') (data_rows ! i) ! 13))
      \<and> (1000 \<le> y \<and> y \<le> 9999 \<and> 0 \<le> m \<and> m \<le> 99 \<and> 0 \<le> d \<and> d \<le> 99
          \<longrightarrow> (\<forall>i<24. length (ymd (rows ! i)) = 8))"
proof -
  have cells: "data_cells (bs content) = map (find_all (ascii ''td'')) data_rows"
    using data_cells_single [OF one] rows17 by simp
  let ?rows = "map (data_row p b y m d) (data_cells (bs content))"
  have r: "get_df_block_date bs p b y m d w = (Inr ?rows, w')"
    by (rule get_df_block_date_rows [OF page])
  have len: "length ?rows = 24" using cells n24 by simp
  have fields: "\<forall>i<24.
            prec_no (?rows ! i) = p \<and> block_no (?rows ! i) = b
          \<and> ymd (?rows ! i) = str_int y @ fmt02 m @ fmt02 d
          \<and> hour (?rows ! i) = get_text (find_all (ascii ''td'') (data_rows ! i) ! 0)
          \<and> precip (?rows ! i) = get_text (find_all (ascii ''td'') (data_rows ! i) ! 3)
          \<and> temp (?rows ! i) = get_text (find_all (ascii ''td'') (data_rows ! i) ! 4)
          \<and> humid (?rows ! i) = get_text (find_all (ascii ''td'') (data_rows ! i) ! 7)
          \<and> wind (?rows ! i) = get_text (find_all (ascii ''td'') (data_rows ! i) ! 8)
          \<and> snowfall (?rows ! i) = get_text (find_all (ascii ''td'') (data_rows ! i) ! 12)
          \<and> snow (?rows ! i) = get_text (find_all (ascii ''td'') (data_rows ! i) ! 13)"
    using n24 by (simp add: cells data_row_def)
  have l8: "1000 \<le> y \<and> y \<le> 9999 \<and> 0 \<le> m \<and> m \<le> 99 \<and> 0 \<le> d \<and> d \<le> 99
          \<longrightarrow> (\<forall>i<24. length (ymd (?rows ! i)) = 8)"
  proof (intro impI allI)
    fix i :: nat
    assume dt: "1000 \<le> y \<and> y \<le> 9999 \<and> 0 \<le> m \<and> m \<le> 99 \<and> 0 \<le> d \<and> d \<le> 99"
      and i: "i < 24"
    from dt have "length (str_int y @ fmt02 m @ fmt02 d) = 8"
      by (intro length_ymd) simp_all
    with fields i show "length (ymd (?rows ! i)) = 8" by simp
  qed
  from r len fields l8 show ?thesis by blast
qed

theorem get_df_block_date_single_table_witness:
  "get_page_block_date 44 47662 2024 1 1 (cached_world []) = (Inr [], cached_world [])
   \<and> filter (\<lambda>t. length (find_all (ascii ''tr'') t) = 26)
        (find_all (ascii ''table'') (const_bs (day_page [hourly_table]) [])) = [hourly_table]
   \<and> length (filter (\<lambda>r. length (find_all (ascii ''td'') r) = 17)
        (find_all (ascii ''tr'') hourly_table)) = 24
   \<and> length (rows_of (get_df_block_date (const_bs (day_page [hourly_table]))
        44 47662 2024 1 1 (cached_world []))) = 24
   \<and> hour (rows_of (get_df_block_date (const_bs (day_page [hourly_table]))
        44 47662 2024 1 1 (cached_world [])) ! 0) = ascii ''1''
   \<and> length (ymd (rows_of (get_df_block_date (const_bs (day_page [hourly_table]))
        44 47662 2024 1 1 (cached_world [])) ! 0)) = 8"
proof -
  let ?bs = "const_bs (day_page [hourly_table])"
  let ?specs = "map (\<lambda>h. (str_nat h, sunny)) [1 ..< 25]"
  let ?drs = "filter (\<lambda>r. length (find_all (ascii ''td'') r) = 17)
        (find_all (ascii ''tr'') hourly_table)"
  have h1: "get_page_block_date 44 47662 2024 1 1 (cached_world []) = (Inr [], cached_world [])"
    by (simp add: cached_page)
  have h2: "filter (\<lambda>t. length (find_all (ascii ''tr'') t) = 26)
        (find_all (ascii ''table'') (?bs [])) = [hourly_table]"
    using candidate_example_tables [of "[?specs]"]
    by (simp add: const_bs_def hourly_table_def)
  have drs: "?drs = map example_row ?specs"
    unfolding hourly_table_def by (rule data_rows_example_table)
  have h3: "length ?drs = 24"
    unfolding drs by simp
  have one: "str_nat (Suc 0) = ascii ''1''" by (simp add: str_nat_small ascii_def)
  have "?specs ! 0 = (str_nat (Suc 0), sunny)" by simp
  then have h4: "get_text (find_all (ascii ''td'') (?drs ! 0) ! 0) = ascii ''1''"
    unfolding drs
    by (simp add: td_example_row example_cells_nth get_text_text_cell one)
  have dt: "(1000::int) \<le> 2024 \<and> (2024::int) \<le> 9999 \<and> (0::int) \<le> 1 \<and> (1::int) \<le> 99
      \<and> (0::int) \<le> 1 \<and> (1::int) \<le> 99"
    by simp
  from get_df_block_date_single_table
    [where bs = "?bs" and table = hourly_table and data_rows = "?drs", OF h1 h2 refl h3]
  obtain rows where
    r: "get_df_block_date ?bs 44 47662 2024 1 1 (cached_world []) = (Inr rows, cached_world [])"
    and len: "length rows = 24"
    and f: "\<forall>i<24. hour (rows ! i) = get_text (find_all (ascii ''td'') (?drs ! i) ! 0)"
    and l: "(1000::int) \<le> 2024 \<and> (2024::int) \<le> 9999 \<and> (0::int) \<le> 1 \<and> (1::int) \<le> 99
      \<and> (0::int) \<le> 1 \<and> (1::int) \<le> 99 \<longrightarrow> (\<forall>i<24. length (ymd (rows ! i)) = 8)"
    by auto
  from r have ro: "rows_of (get_df_block_date ?bs 44 47662 2024 1 1 (cached_world [])) = rows"
    by (simp add: rows_of_def)
  from f h4 have "hour (rows ! 0) = ascii ''1''" by simp
  moreover from l dt have "length (ymd (rows ! 0)) = 8" by simp
  ultimately show ?thesis using h1 h2 h3 len ro by simp
qed

text \<open>
  The claim as stated (any page that contains such a table, an 8-digit date) fails on
  a page with two such tables, where every table with 26 rows contributes its rows,
  here 48; and for a year written with fewer than four digits, where the date of the
  rows has fewer than 8 characters, here \<open>9990101\<close>.
\<close>

theorem get_df_block_date_two_tables_counterexample:
  "hourly_table \<in> set (find_all (ascii ''table'') (day_page [hourly_table, hourly_table]))
   \<and> length (find_all (ascii ''tr'') hourly_table) = 26
   \<and> length (filter (\<lambda>r. length (find_all (ascii ''td'') r) = 17)
        (find_all (ascii ''tr'') hourly_table)) = 24
   \<and> length (rows_of (get_df_block_date (const_bs (day_page [hourly_table, hourly_table]))
        44 47662 2024 1 1 (cached_world []))) = 48
   \<and> length (rows_of (get_df_block_date (const_bs (day_page [hourly_table]))
        44 47662 999 1 1 (cached_world []))) = 24
   \<and> ymd (rows_of (get_df_block_date (const_bs (day_page [hourly_table]))
        44 47662 999 1 1 (cached_world [])) ! 0) = ascii ''9990101''
   \<and> length (ymd (rows_of (get_df_block_date (const_bs (day_page [hourly_table]))
        44 47662 999 1 1 (cached_world [])) ! 0)) = 7"
proof -
  let ?specs = "map (\<lambda>h. (str_nat h, sunny)) [1 ..< 25]"
  have a: "hourly_table \<in> set (find_all (ascii ''table'') (day_page [hourly_table, hourly_table]))"
    using tables_day_page [of "[?specs, ?specs]"] by (simp add: hourly_table_def)
  have b: "length (find_all (ascii ''tr'') hourly_table) = 26"
    unfolding hourly_table_def by (rule length_rows_example_table) simp
  have c: "length (filter (\<lambda>r. length (find_all (ascii ''td'') r) = 17)
        (find_all (ascii ''tr'') hourly_table)) = 24"
    unfolding hourly_table_def data_rows_example_table by simp
  have d: "length (data_cells (day_page [hourly_table, hourly_table])) = 48"
    using data_cells_example [of "[?specs, ?specs]"] by (simp add: hourly_table_def)
  have e: "data_cells (day_page [hourly_table]) = map example_cells ?specs"
    using data_cells_example [of "[?specs]"] by (simp add: hourly_table_def)
  have rows: "rows_of (get_df_block_date (const_bs (day_page [hourly_table]))
        44 47662 999 1 1 (cached_world []))
      = map (data_row 44 47662 999 1 1) (map example_cells ?specs)"
    by (simp only: rows_of_cached e)
  have n: "length (map (data_row 44 47662 999 1 1) (map example_cells ?specs)) = 24"
    by simp
  have "map (data_row 44 47662 999 1 1) (map example_cells ?specs) ! 0
      = data_row 44 47662 999 1 1 (example_cells (?specs ! 0))"
    by (simp only: map_map nth_map length_map length_upt) simp
  then have f: "ymd (map (data_row 44 47662 999 1 1) (map example_cells ?specs) ! 0)
      = str_int 999 @ fmt02 1 @ fmt02 1"
    by (simp add: data_row_def)
  have g: "str_int 999 @ fmt02 1 @ fmt02 1 = ascii ''9990101''"
    by (simp add: ymd_9990101 ascii_def)
  have h: "length (ascii ''9990101'') = 7" by (simp add: ascii_def)
  from a b c d show ?thesis
    unfolding rows f g h n by (simp add: rows_of_cached)
qed

text \<open>
  C2 (as amended). The rows of one call carry the queried region number, station number
  and date, and their hours are the texts of cell 0 of the qualifying rows, in document
  order; the parser does not look for repeated hours. So the quadruples of region
  number, station number, date and hour are pairwise different exactly when those cell
  texts are.
\<close>

theorem get_df_block_date_keys:
  assumes page: "get_page_block_date p b y m d w = (Inr content, w')"
  shows "\<exists>rows. get_df_block_date bs p b y m d w = (Inr rows, w')
      \<and> map obs_key rows =
          map (\<lambda>cols. (p, b, str_int y @ fmt02 m @ fmt02 d, get_text (cols ! 0)))
            (data_cells (bs content))
      \<and> (distinct (map obs_key rows)
           \<longleftrightarrow> distinct (map (\<lambda>cols. get_text (cols ! 0)) (data_cells (bs content))))"
proof -
  let ?cells = "data_cells (bs content)"
  let ?rows = "map (data_row p b y m d) ?cells"
  let ?k = "\<lambda>h. (p, b, str_int y @ fmt02 m @ fmt02 d, h)"
  have r: "get_df_block_date bs p b y m d w = (Inr ?rows, w')"
    by (rule get_df_block_date_rows [OF page])
  have keys: "map obs_key ?rows =
          map (\<lambda>cols. (p, b, str_int y @ fmt02 m @ fmt02 d, get_text (cols ! 0))) ?cells"
    by (simp add: obs_key_def data_row_def)
  have "map obs_key ?rows = map ?k (map (\<lambda>cols. get_text (cols ! 0)) ?cells)"
    by (simp add: obs_key_def data_row_def)
  moreover have "inj ?k" by (simp add: inj_on_def)
  ultimately have "distinct (map obs_key ?rows)
      \<longleftrightarrow> distinct (map (\<lambda>cols. get_text (cols ! 0)) ?cells)"
    by (simp only: distinct_map) (auto intro: inj_on_subset)
  with r keys show ?thesis by blast
qed

theorem get_df_block_date_keys_witness:
  "get_page_block_date 44 47662 2024 1 1 (cached_world []) = (Inr [], cached_world [])
   \<and> map obs_key (rows_of (get_df_block_date
        (const_bs (day_page [example_table [(ascii ''1'', sunny), (ascii ''2'', sunny)]]))
        44 47662 2024 1 1 (cached_world [])))
      = [(44, 47662, ascii ''20240101'', ascii ''1''), (44, 47662, ascii ''20240101'', ascii ''2'')]
   \<and> distinct (map obs_key (rows_of (get_df_block_date
        (const_bs (day_page [example_table [(ascii ''1'', sunny), (ascii ''2'', sunny)]]))
        44 47662 2024 1 1 (cached_world []))))"
proof -
  let ?specs = "[(ascii ''1'', sunny), (ascii ''2'', sunny)]"
  let ?soup = "day_page [example_table ?specs]"
  have h1: "get_page_block_date 44 47662 2024 1 1 (cached_world []) = (Inr [], cached_world [])"
    by (simp add: cached_page)
  have cells: "data_cells ?soup = map example_cells ?specs"
    using data_cells_example [of "[?specs]"] by simp
  have ne: "ascii ''1'' \<noteq> ascii ''2''" by (simp add: ascii_def)
  from get_df_block_date_keys [OF h1, of "const_bs ?soup"]
  obtain rows where
    r: "get_df_block_date (const_bs ?soup) 44 47662 2024 1 1 (cached_world [])
          = (Inr rows, cached_world [])"
    and k: "map obs_key rows =
          map (\<lambda>cols. (44, 47662, str_int 2024 @ fmt02 1 @ fmt02 1, get_text (cols ! 0)))
            (data_cells (const_bs ?soup []))"
    and dd: "distinct (map obs_key rows)
           \<longleftrightarrow> distinct (map (\<lambda>cols. get_text (cols ! 0)) (data_cells (const_bs ?soup [])))"
    by blast
  from r have ro: "rows_of (get_df_block_date (const_bs ?soup) 44 47662 2024 1 1 (cached_world []))
      = rows"
    by (simp add: rows_of_def)
  from k have k2: "map obs_key rows =
      [(44, 47662, ascii ''20240101'', ascii ''1''), (44, 47662, ascii ''20240101'', ascii ''2'')]"
    by (simp add: const_bs_def cells example_cells_nth get_text_text_cell ymd_20240101)
  from dd ne have d2: "distinct (map obs_key rows)"
    by (simp add: const_bs_def cells example_cells_nth get_text_text_cell)
  from h1 ro k2 d2 show ?thesis by simp
qed

text \<open>
  The claim as stated fails on a page whose table has two data rows with the same hour
  text: both rows are produced, with the same quadruple.
\<close>

theorem get_df_block_date_repeated_hour_counterexample:
  "map obs_key (rows_of (get_df_block_date
        (const_bs (day_page [example_table [(ascii ''1'', sunny), (ascii ''1'', sunny)]]))
        44 47662 2024 1 1 (cached_world [])))
      = [(44, 47662, ascii ''20240101'', ascii ''1''), (44, 47662, ascii ''20240101'', ascii ''1'')]"
proof -
  let ?specs = "[(ascii ''1'', sunny), (ascii ''1'', sunny)]"
  have cells: "data_cells (day_page [example_table ?specs]) = map example_cells ?specs"
    using data_cells_example [of "[?specs]"] by simp
  show ?thesis
    by (simp add: rows_of_cached cells obs_key_def data_row_def example_cells_nth
        get_text_text_cell ymd_20240101)
qed

text \<open>
  C10 (as amended). For every produced row: when the first icon element of cell 14 has
  no \<open>alt\<close> attribute, the weather label is \<open>None\<close>, not the empty string. The label
  is the empty string exactly when cell 14 holds no icon element, or when its first
  icon element has an \<open>alt\<close> attribute that is itself empty.
\<close>

theorem get_df_block_date_weather:
  assumes page: "get_page_block_date p b y m d w = (Inr content, w')"
  shows "\<exists>rows. get_df_block_date bs p b y m d w = (Inr rows, w')
      \<and> length rows = length (data_cells (bs content))
      \<and> (\<forall>i<length rows.
           (\<forall>img. find_first (ascii ''img'') (data_cells (bs content) ! i ! 14) = Some img
                  \<and> get_attr img (ascii ''alt'') = None
               \<longrightarrow> weather (rows ! i) = None)
         \<and> (weather (rows ! i) = Some []
             \<longleftrightarrow> find_first (ascii ''img'') (data_cells (bs content) ! i ! 14) = None
                \<or> (\<exists>img. find_first (ascii ''img'') (data_cells (bs content) ! i ! 14) = Some img
                         \<and> get_attr img (ascii ''alt'') = Some [])))"
proof -
  let ?cells = "data_cells (bs content)"
  let ?rows = "map (data_row p b y m d) ?cells"
  have r: "get_df_block_date bs p b y m d w = (Inr ?rows, w')"
    by (rule get_df_block_date_rows [OF page])
  have w: "weather (data_row p b y m d cols) =
      (case find_first (ascii ''img'') (cols ! 14) of
         None \<Rightarrow> Some [] | Some img \<Rightarrow> get_attr img (ascii ''alt''))" for cols
    by (simp add: data_row_def)
  have "\<forall>i<length ?rows.
           (\<forall>img. find_first (ascii ''img'') (?cells ! i ! 14) = Some img
                  \<and> get_attr img (ascii ''alt'') = None
               \<longrightarrow> weather (?rows ! i) = None)
         \<and> (weather (?rows ! i) = Some []
             \<longleftrightarrow> find_first (ascii ''img'') (?cells ! i ! 14) = None
                \<or> (\<exists>img. find_first (ascii ''img'') (?cells ! i ! 14) = Some img
                         \<and> get_attr img (ascii ''alt'') = Some []))"
    by (auto simp: w split: option.splits)
  with r show ?thesis by (intro exI [of _ ?rows]) simp
qed

theorem get_df_block_date_weather_witness:
  "get_page_block_date 44 47662 2024 1 1 (cached_world []) = (Inr [], cached_world [])
   \<and> find_first (ascii ''img'')
        (data_cells (day_page [example_table [(ascii ''1'', [(ascii ''src'', ascii ''sun.gif'')])]])
           ! 0 ! 14)
      = Some (Tag (ascii ''img'') [(ascii ''src'', ascii ''sun.gif'')] [])
   \<and> get_attr (Tag (ascii ''img'') [(ascii ''src'', ascii ''sun.gif'')] []) (ascii ''alt'') = None
   \<and> map weather (rows_of (get_df_block_date
        (const_bs (day_page [example_table [(ascii ''1'', [(ascii ''src'', ascii ''sun.gif'')])]]))
        44 47662 2024 1 1 (cached_world []))) = [None]"
proof -
  let ?a = "[(ascii ''src'', ascii ''sun.gif'')]"
  let ?specs = "[(ascii ''1'', ?a)]"
  let ?soup = "day_page [example_table ?specs]"
  let ?img = "Tag (ascii ''img'') ?a []"
  have h1: "get_page_block_date 44 47662 2024 1 1 (cached_world []) = (Inr [], cached_world [])"
    by (simp add: cached_page)
  have cells: "data_cells ?soup = map example_cells ?specs"
    using data_cells_example [of "[?specs]"] by simp
  have f: "find_first (ascii ''img'') (data_cells ?soup ! 0 ! 14) = Some ?img"
    by (simp add: cells example_cells_nth find_first_icon)
  have g: "get_attr ?img (ascii ''alt'') = None"
    by (simp add: ascii_def)
  from get_df_block_date_weather [OF h1, of "const_bs ?soup"]
  obtain rows where
    r: "get_df_block_date (const_bs ?soup) 44 47662 2024 1 1 (cached_world [])
          = (Inr rows, cached_world [])"
    and len: "length rows = length (data_cells (const_bs ?soup []))"
    and imp: "\<forall>i<length rows. \<forall>img.
        find_first (ascii ''img'') (data_cells (const_bs ?soup []) ! i ! 14) = Some img
          \<and> get_attr img (ascii ''alt'') = None \<longrightarrow> weather (rows ! i) = None"
    by blast
  from len have l1: "length rows = 1" by (simp add: const_bs_def cells)
  with imp f g have "weather (rows ! 0) = None" by (simp add: const_bs_def)
  with l1 have "map weather rows = [None]"
    by (cases rows) simp_all
  moreover from r have "rows_of (get_df_block_date (const_bs ?soup) 44 47662 2024 1 1
      (cached_world [])) = rows"
    by (simp add: rows_of_def)
  ultimately show ?thesis using h1 f g by simp
qed

text \<open>
  The claim as stated fails on a row whose icon has an empty \<open>alt\<close> attribute: the icon
  element is present and the label is the empty string.
\<close>

theorem get_df_block_date_empty_alt_counterexample:
  "find_first (ascii ''img'')
        (data_cells (day_page [example_table [(ascii ''1'', [(ascii ''alt'', [])])]]) ! 0 ! 14)
      = Some (Tag (ascii ''img'') [(ascii ''alt'', [])] [])
   \<and> map weather (rows_of (get_df_block_date
        (const_bs (day_page [example_table [(ascii ''1'', [(ascii ''alt'', [])])]]))
        44 47662 2024 1 1 (cached_world []))) = [Some []]"
proof -
  let ?specs = "[(ascii ''1'', [(ascii ''alt'', [])])]"
  have cells: "data_cells (day_page [example_table ?specs]) = map example_cells ?specs"
    using data_cells_example [of "[?specs]"] by simp
  show ?thesis
    by (simp add: rows_of_cached cells data_row_def example_cells_nth find_first_icon)
qed

subsection \<open>The cache\<close>








subsection \<open>Archives\<close>

lemma tar_add_files_ok:
  assumes "set fs \<subseteq> dom (cache w)" "AddTar tgz ` set fs \<inter> failing w = {}"
  shows "tar_add_files tgz fs ms w = (Inr (), ms @ map (\<lambda>f. (f, the (cache w f))) fs)"
  using assms
proof (induction fs arbitrary: ms)
  case Nil
  then show ?case by simp
next
  case (Cons f fs)
  from Cons.prems obtain content where c: "cache w f = Some content" by auto
  from Cons.prems have nb: "AddTar tgz f \<notin> failing w" by auto
  have step: "tar_add_files tgz (f # fs) ms w = tar_add_files tgz fs (ms @ [(f, content)]) w"
    using c nb by simp
  have ih: "tar_add_files tgz fs (ms @ [(f, content)]) w =
    (Inr (), (ms @ [(f, content)]) @ map (\<lambda>f. (f, the (cache w f))) fs)"
    using Cons.prems by (intro Cons.IH) auto
  show ?case unfolding step ih using c by simp
qed

lemma tar_add_files_Inr:
  "tar_add_files tgz fs ms w = (Inr u, ms') \<Longrightarrow>
     set fs \<subseteq> dom (cache w) \<and> AddTar tgz ` set fs \<inter> failing w = {}"
proof (induction fs arbitrary: ms)
  case Nil
  then show ?case by simp
next
  case (Cons f fs)
  from Cons.prems obtain content where c: "cache w f = Some content"
    and nb: "AddTar tgz f \<notin> failing w"
    by (auto split: option.splits if_splits)
  from Cons.prems c nb have "tar_add_files tgz fs (ms @ [(f, content)]) w = (Inr u, ms')"
    by simp
  from Cons.IH [OF this] c nb show ?case by auto
qed

lemma write_archive_cache: "cache (snd (write_archive tgz fs w)) = cache w"
  by (simp add: write_archive_def split: prod.splits sum.splits)

lemma write_archive_ok:
  assumes "set fs \<subseteq> dom (cache w)"
    and "({OpenTar tgz, CloseTar tgz} \<union> AddTar tgz ` set fs) \<inter> failing w = {}"
  shows "write_archive tgz fs w =
    (Inr (), w\<lparr>tars := (tars w)(tgz \<mapsto> Archive (map (\<lambda>f. (f, the (cache w f))) fs))\<rparr>)"
proof -
  from assms(2) have o: "OpenTar tgz \<notin> failing w" and c: "CloseTar tgz \<notin> failing w"
    and a: "AddTar tgz ` set fs \<inter> failing w = {}"
    by auto
  from tar_add_files_ok [OF assms(1) a, of "[]"] o c show ?thesis
    by (simp add: write_archive_def)
qed

lemma write_archive_Inr:
  assumes "write_archive tgz fs w = (Inr u, w1)"
  shows "set fs \<subseteq> dom (cache w)
    \<and> ({OpenTar tgz, CloseTar tgz} \<union> AddTar tgz ` set fs) \<inter> failing w = {}
    \<and> w1 = w\<lparr>tars := (tars w)(tgz \<mapsto> Archive (map (\<lambda>f. (f, the (cache w f))) fs))\<rparr>"
proof -
  from assms have o: "OpenTar tgz \<notin> failing w"
    by (auto simp: write_archive_def split: if_splits)
  obtain r ms where add: "tar_add_files tgz fs [] w = (r, ms)"
    by (cases "tar_add_files tgz fs [] w")
  from assms o add obtain v where r: "r = Inr v"
    by (cases r) (auto simp: write_archive_def)
  from assms o add r have c: "CloseTar tgz \<notin> failing w"
    by (auto simp: write_archive_def split: if_splits)
  from tar_add_files_Inr [of tgz fs "[]" w v ms] add r
  have ex: "set fs \<subseteq> dom (cache w)" and a: "AddTar tgz ` set fs \<inter> failing w = {}"
    by simp_all
  from o c a have all: "({OpenTar tgz, CloseTar tgz} \<union> AddTar tgz ` set fs) \<inter> failing w = {}"
    by auto
  from write_archive_ok [OF ex all] assms ex all show ?thesis by simp
qed

lemma unlink_files_tars: "tars (snd (unlink_files fs w)) = tars w"
  by (induction fs arbitrary: w) (simp_all split: option.splits)

lemma unlink_files_cache:
  "cache (snd (unlink_files fs w)) f = cache w f
   \<or> (f \<in> set fs \<and> cache (snd (unlink_files fs w)) f = None)"
proof (induction fs arbitrary: w)
  case Nil
  then show ?case by simp
next
  case (Cons g fs)
  show ?case
  proof (cases "cache w g")
    case None
    then show ?thesis by simp
  next
    case (Some c)
    from Cons.IH [of "w\<lparr>cache := (cache w)(g := None)\<rparr>"] Some
    show ?thesis by (auto split: if_splits)
  qed
qed

lemma unlink_files_ok:
  assumes "distinct fs" "set fs \<subseteq> dom (cache w)"
  shows "unlink_files fs w =
    (Inr (), w\<lparr>cache := (\<lambda>f. if f \<in> set fs then None else cache w f)\<rparr>)"
  using assms
proof (induction fs arbitrary: w)
  case Nil
  then show ?case by simp
next
  case (Cons g fs)
  from Cons.prems obtain c where c: "cache w g = Some c" by auto
  let ?w = "w\<lparr>cache := (cache w)(g := None)\<rparr>"
  have step: "unlink_files (g # fs) w = unlink_files fs ?w"
    using c by simp
  have ih: "unlink_files fs ?w =
      (Inr (), ?w\<lparr>cache := (\<lambda>f. if f \<in> set fs then None else cache ?w f)\<rparr>)"
    using Cons.prems by (intro Cons.IH) auto
  have "(\<lambda>f. if f \<in> set fs then None else cache ?w f)
      = (\<lambda>f. if f \<in> set (g # fs) then None else cache w f)"
    by (rule ext) simp
  then have eq: "?w\<lparr>cache := (\<lambda>f. if f \<in> set fs then None else cache ?w f)\<rparr>
      = w\<lparr>cache := (\<lambda>f. if f \<in> set (g # fs) then None else cache w f)\<rparr>"
    by simp
  show ?case unfolding step ih eq ..
qed

lemma extract_members_map:
  "extract_members c (map (\<lambda>f. (f, g f)) fs) = (\<lambda>x. if x \<in> set fs then Some (g x) else c x)"
proof (induction fs arbitrary: c)
  case Nil
  then show ?case by (simp add: extract_members_def)
next
  case (Cons f fs)
  have "extract_members c (map (\<lambda>f. (f, g f)) (f # fs))
      = extract_members (c(f \<mapsto> g f)) (map (\<lambda>f. (f, g f)) fs)"
    by (simp add: extract_members_def)
  also have "\<dots> = (\<lambda>x. if x \<in> set fs then Some (g x) else (c(f \<mapsto> g f)) x)"
    by (rule Cons.IH)
  also have "\<dots> = (\<lambda>x. if x \<in> set (f # fs) then Some (g x) else c x)"
    by (rule ext) simp
  finally show ?case .
qed

lemma compress_impl_ok:
  assumes files_exist: "set cache_files \<subseteq> dom (cache w)"
    and names_distinct: "distinct cache_files"
    and writable: "({OpenTar tgz, CloseTar tgz} \<union> AddTar tgz ` set cache_files) \<inter> failing w = {}"
  shows "compress_impl tgz cache_files remove_cache w =
    (Inr (), w\<lparr>tars := (tars w)(tgz \<mapsto> Archive (map (\<lambda>f. (f, the (cache w f))) cache_files)),
               cache := (\<lambda>f. if remove_cache \<and> f \<in> set cache_files then None else cache w f)\<rparr>)"
proof -
  let ?ms = "map (\<lambda>f. (f, the (cache w f))) cache_files"
  let ?w1 = "w\<lparr>tars := (tars w)(tgz \<mapsto> Archive ?ms)\<rparr>"
  have add: "write_archive tgz cache_files w = (Inr (), ?w1)"
    by (rule write_archive_ok [OF files_exist writable])
  show ?thesis
  proof (cases remove_cache)
    case True
    have u: "unlink_files cache_files ?w1 =
        (Inr (), ?w1\<lparr>cache := (\<lambda>f. if f \<in> set cache_files then None else cache ?w1 f)\<rparr>)"
      using names_distinct files_exist by (intro unlink_files_ok) auto
    have "(\<lambda>f. if f \<in> set cache_files then None else cache ?w1 f)
        = (\<lambda>f. if remove_cache \<and> f \<in> set cache_files then None else cache w f)"
      using True by (intro ext) simp
    then have eq: "?w1\<lparr>cache := (\<lambda>f. if f \<in> set cache_files then None else cache ?w1 f)\<rparr>
      = w\<lparr>tars := (tars w)(tgz \<mapsto> Archive ?ms),
           cache := (\<lambda>f. if remove_cache \<and> f \<in> set cache_files then None else cache w f)\<rparr>"
      by simp
    have "compress_impl tgz cache_files remove_cache w = unlink_files cache_files ?w1"
      using True by (simp add: compress_impl_def add)
    then show ?thesis unfolding u eq .
  next
    case False
    have "(\<lambda>f. if remove_cache \<and> f \<in> set cache_files then None else cache w f) = cache w"
      using False by (intro ext) simp
    then have eq: "?w1 = w\<lparr>tars := (tars w)(tgz \<mapsto> Archive ?ms),
           cache := (\<lambda>f. if remove_cache \<and> f \<in> set cache_files then None else cache w f)\<rparr>"
      by simp
    have "compress_impl tgz cache_files remove_cache w = (Inr (), ?w1)"
      using False by (simp add: compress_impl_def add)
    then show ?thesis unfolding eq [symmetric] .
  qed
qed

text \<open>
  C5. For a batch of loose files (existing, each named once, no write operation of the
  archive failing), \<open>compress_impl\<close> followed by \<open>extract_impl\<close> of the same archive
  succeeds; the archive holds exactly the batch's names with the contents the loose
  files had, the cache is afterwards exactly what it was before the compression, and,
  with removal, the names that the extraction brings back are exactly the batch's.
\<close>

theorem compress_extract_roundtrip:
  assumes files_exist: "set cache_files \<subseteq> dom (cache w)"
    and names_distinct: "distinct cache_files"
    and writable: "({OpenTar tgz, CloseTar tgz} \<union> AddTar tgz ` set cache_files) \<inter> failing w = {}"
  shows "\<exists>w1 w2. compress_impl tgz cache_files remove_cache w = (Inr (), w1)
      \<and> extract_impl tgz w1 = (Inr (), w2)
      \<and> tars w1 tgz = Some (Archive (map (\<lambda>f. (f, the (cache w f))) cache_files))
      \<and> cache w2 = cache w
      \<and> (\<forall>f\<in>set cache_files. cache w2 f = cache w f)
      \<and> (remove_cache \<longrightarrow> {f. cache w1 f = None \<and> cache w2 f \<noteq> None} = set cache_files)"
proof -
  let ?ms = "map (\<lambda>f. (f, the (cache w f))) cache_files"
  let ?c1 = "\<lambda>f. if remove_cache \<and> f \<in> set cache_files then None else cache w f"
  let ?w1 = "w\<lparr>tars := (tars w)(tgz \<mapsto> Archive ?ms), cache := ?c1\<rparr>"
  have c: "compress_impl tgz cache_files remove_cache w = (Inr (), ?w1)"
    by (rule compress_impl_ok [OF files_exist names_distinct writable])
  have restore: "extract_members ?c1 ?ms = cache w"
  proof (rule ext)
    fix x
    show "extract_members ?c1 ?ms x = cache w x"
      using files_exist by (auto simp: extract_members_map)
  qed
  let ?w2 = "?w1\<lparr>cache := cache w\<rparr>"
  have e: "extract_impl tgz ?w1 = (Inr (), ?w2)"
    by (simp add: extract_impl_def restore)
  have restored: "remove_cache \<longrightarrow> {f. cache ?w1 f = None \<and> cache ?w2 f \<noteq> None} = set cache_files"
    using files_exist by auto
  from c e restored show ?thesis
    by (intro exI [of _ ?w1] exI [of _ ?w2]) simp
qed

theorem compress_extract_roundtrip_witness:
  "set [ascii ''a.txt'', ascii ''b.txt'']
     \<subseteq> dom (cache (example_world [(ascii ''a.txt'', ascii ''x''), (ascii ''b.txt'', ascii ''y'')]
          (Inl HTTPError) {}))
   \<and> distinct [ascii ''a.txt'', ascii ''b.txt'']
   \<and> fst (compress_impl (ascii ''2025-09.tar.gz'') [ascii ''a.txt'', ascii ''b.txt''] True
        (example_world [(ascii ''a.txt'', ascii ''x''), (ascii ''b.txt'', ascii ''y'')]
          (Inl HTTPError) {})) = Inr ()
   \<and> cache (snd (extract_impl (ascii ''2025-09.tar.gz'')
        (snd (compress_impl (ascii ''2025-09.tar.gz'') [ascii ''a.txt'', ascii ''b.txt''] True
          (example_world [(ascii ''a.txt'', ascii ''x''), (ascii ''b.txt'', ascii ''y'')]
            (Inl HTTPError) {})))))
      = cache (example_world [(ascii ''a.txt'', ascii ''x''), (ascii ''b.txt'', ascii ''y'')]
          (Inl HTTPError) {})"
proof -
  let ?w = "example_world [(ascii ''a.txt'', ascii ''x''), (ascii ''b.txt'', ascii ''y'')]
          (Inl HTTPError) {}"
  let ?fs = "[ascii ''a.txt'', ascii ''b.txt'']"
  let ?tgz = "ascii ''2025-09.tar.gz''"
  have h1: "set ?fs \<subseteq> dom (cache ?w)"
    by (simp add: example_world_def)
  have h2: "distinct ?fs" by (simp add: ascii_def)
  have h3: "({OpenTar ?tgz, CloseTar ?tgz} \<union> AddTar ?tgz ` set ?fs) \<inter> failing ?w = {}"
    by (simp add: example_world_def)
  from compress_extract_roundtrip [OF h1 h2 h3, of True]
  obtain w1 w2 where
    c: "compress_impl ?tgz ?fs True ?w = (Inr (), w1)"
    and e: "extract_impl ?tgz w1 = (Inr (), w2)"
    and r: "cache w2 = cache ?w"
    by blast
  show ?thesis
    unfolding c e fst_conv snd_conv r using h1 h2 by simp
qed

text \<open>
  C6. Whatever \<open>compress_impl\<close> returns: a loose file is never changed, only removed,
  and only a file of the batch; if any loose file has been removed, the archive was
  opened, every file of the batch was added with its content, and the archive was
  closed, all without an error (the whole bundle was written before the first removal);
  and when opening the archive, adding a file or closing the archive fails,
  \<open>compress_impl\<close> raises and every loose file is still in place.
\<close>

theorem compress_impl_removes_after_write:
  assumes run: "compress_impl tgz cache_files remove_cache w = (res, w1)"
  shows "(\<forall>f. cache w1 f = cache w f \<or> (f \<in> set cache_files \<and> cache w1 f = None))
      \<and> (cache w1 = cache w
          \<or> (remove_cache
              \<and> fst (write_archive tgz cache_files w) = Inr ()
              \<and> tars w1 tgz = Some (Archive (map (\<lambda>f. (f, the (cache w f))) cache_files))))
      \<and> (OpenTar tgz \<in> failing w \<or> CloseTar tgz \<in> failing w
          \<or> (\<exists>f\<in>set cache_files. AddTar tgz f \<in> failing w \<or> cache w f = None)
          \<longrightarrow> (\<exists>e. res = Inl e) \<and> cache w1 = cache w)"
proof -
  obtain r0 wa where wr: "write_archive tgz cache_files w = (r0, wa)"
    by (cases "write_archive tgz cache_files w")
  have ca: "cache wa = cache w"
    using write_archive_cache [of tgz cache_files w] wr by simp
  show ?thesis
  proof (cases r0)
    case (Inl e)
    with run wr have "res = Inl e" "w1 = wa"
      by (simp_all add: compress_impl_def)
    with ca show ?thesis by simp
  next
    case (Inr u)
    from write_archive_Inr [of tgz cache_files w u wa] wr Inr
    have ex: "set cache_files \<subseteq> dom (cache w)"
      and dev: "({OpenTar tgz, CloseTar tgz} \<union> AddTar tgz ` set cache_files) \<inter> failing w = {}"
      and wa: "wa = w\<lparr>tars := (tars w)(tgz \<mapsto>
                  Archive (map (\<lambda>f. (f, the (cache w f))) cache_files))\<rparr>"
      by simp_all
    from wa have full: "tars wa tgz = Some (Archive (map (\<lambda>f. (f, the (cache w f))) cache_files))"
      by simp
    from ex dev have nofail: "\<not> (OpenTar tgz \<in> failing w \<or> CloseTar tgz \<in> failing w
          \<or> (\<exists>f\<in>set cache_files. AddTar tgz f \<in> failing w \<or> cache w f = None))"
      by auto
    have written: "fst (write_archive tgz cache_files w) = Inr ()"
      using wr Inr by simp
    show ?thesis
    proof (cases remove_cache)
      case False
      with run wr Inr have "w1 = wa" by (simp add: compress_impl_def)
      with ca have c1: "cache w1 = cache w" by simp
      have kept: "\<forall>f. cache w1 f = cache w f \<or> (f \<in> set cache_files \<and> cache w1 f = None)"
        by (simp add: c1)
      have either: "cache w1 = cache w
          \<or> (remove_cache
              \<and> fst (write_archive tgz cache_files w) = Inr ()
              \<and> tars w1 tgz = Some (Archive (map (\<lambda>f. (f, the (cache w f))) cache_files)))"
        by (simp add: c1)
      have failure: "OpenTar tgz \<in> failing w \<or> CloseTar tgz \<in> failing w
          \<or> (\<exists>f\<in>set cache_files. AddTar tgz f \<in> failing w \<or> cache w f = None)
          \<longrightarrow> (\<exists>e. res = Inl e) \<and> cache w1 = cache w"
        using nofail by blast
      show ?thesis by (rule conjI [OF kept conjI [OF either failure]])
    next
      case True
      with run wr Inr have u: "unlink_files cache_files wa = (res, w1)"
        by (simp add: compress_impl_def)
      then have w1: "w1 = snd (unlink_files cache_files wa)" by simp
      have t: "tars w1 tgz = Some (Archive (map (\<lambda>f. (f, the (cache w f))) cache_files))"
        unfolding w1 unlink_files_tars by (rule full)
      have k: "\<forall>f. cache w1 f = cache w f \<or> (f \<in> set cache_files \<and> cache w1 f = None)"
        unfolding w1 using unlink_files_cache [of cache_files wa] ca by simp
      have either: "cache w1 = cache w
          \<or> (remove_cache
              \<and> fst (write_archive tgz cache_files w) = Inr ()
              \<and> tars w1 tgz = Some (Archive (map (\<lambda>f. (f, the (cache w f))) cache_files)))"
        using t True written by simp
      have failure: "OpenTar tgz \<in> failing w \<or> CloseTar tgz \<in> failing w
          \<or> (\<exists>f\<in>set cache_files. AddTar tgz f \<in> failing w \<or> cache w f = None)
          \<longrightarrow> (\<exists>e. res = Inl e) \<and> cache w1 = cache w"
        using nofail by blast
      show ?thesis by (rule conjI [OF k conjI [OF either failure]])
    qed
  qed
qed

theorem compress_impl_removes_after_write_witness:
  "CloseTar (ascii ''2025-09.tar.gz'')
     \<in> failing (example_world [(ascii ''a.txt'', ascii ''x''), (ascii ''b.txt'', ascii ''y'')]
            (Inl HTTPError) {CloseTar (ascii ''2025-09.tar.gz'')})
   \<and> fst (compress_impl (ascii ''2025-09.tar.gz'') [ascii ''a.txt'', ascii ''b.txt''] True
        (example_world [(ascii ''a.txt'', ascii ''x''), (ascii ''b.txt'', ascii ''y'')]
            (Inl HTTPError) {CloseTar (ascii ''2025-09.tar.gz'')})) = Inl OSError
   \<and> cache (snd (compress_impl (ascii ''2025-09.tar.gz'') [ascii ''a.txt'', ascii ''b.txt''] True
        (example_world [(ascii ''a.txt'', ascii ''x''), (ascii ''b.txt'', ascii ''y'')]
            (Inl HTTPError) {CloseTar (ascii ''2025-09.tar.gz'')})))
      = cache (example_world [(ascii ''a.txt'', ascii ''x''), (ascii ''b.txt'', ascii ''y'')]
            (Inl HTTPError) {CloseTar (ascii ''2025-09.tar.gz'')})"
proof -
  let ?tgz = "ascii ''2025-09.tar.gz''"
  let ?w = "example_world [(ascii ''a.txt'', ascii ''x''), (ascii ''b.txt'', ascii ''y'')]
            (Inl HTTPError) {CloseTar ?tgz}"
  let ?fs = "[ascii ''a.txt'', ascii ''b.txt'']"
  have fails: "CloseTar ?tgz \<in> failing ?w" by (simp add: example_world_def)
  have ne: "ascii ''a.txt'' \<noteq> ascii ''b.txt''" by (simp add: ascii_def)
  have wr: "fst (write_archive ?tgz ?fs ?w) = Inl OSError"
    using ne by (simp add: write_archive_def example_world_def)
  obtain res w1 where run: "compress_impl ?tgz ?fs True ?w = (res, w1)"
    by (cases "compress_impl ?tgz ?fs True ?w")
  from compress_impl_removes_after_write [OF run] fails
  have kept: "cache w1 = cache ?w" by blast
  from run wr have "res = Inl OSError"
    by (auto simp: compress_impl_def split: prod.splits sum.splits)
  with fails kept show ?thesis unfolding run fst_conv snd_conv by simp
qed

subsection \<open>The calendar\<close>

lemma days_before_month_Suc:
  "1 \<le> m \<Longrightarrow> days_before_month y (Suc m) = days_before_month y m + days_in_month y m"
  by (simp add: days_before_month_def)

lemma days_before_month_1: "days_before_month y (Suc 0) = 0"
  by (simp add: days_before_month_def)

lemma days_before_month_mono:
  "m \<le> m' \<Longrightarrow> days_before_month y m \<le> days_before_month y m'"
proof (induction m' arbitrary: m)
  case 0
  then show ?case by simp
next
  case (Suc k)
  show ?case
  proof (cases "m = Suc k")
    case True
    then show ?thesis by simp
  next
    case False
    with Suc.prems have mk: "m \<le> k" by simp
    from Suc.IH [OF mk] have le: "days_before_month y m \<le> days_before_month y k" .
    have "days_before_month y k \<le> days_before_month y (Suc k)"
      by (cases "k = 0") (simp_all add: days_before_month_def)
    with le show ?thesis by simp
  qed
qed

lemma days_before_month_13:
  "days_before_month y 13 = (if is_leap y then 366 else 365)"
  by (simp add: days_before_month_def days_in_month_def upt_rec)

lemma leap_step_arith:
  fixes a b c da db dc k :: nat
  assumes "b \<le> a" "db \<le> da" "dc \<le> db"
  shows "Suc k * 365 + (a + da) - (b + db) + (c + dc) = k * 365 + a - b + c + (365 + da - db + dc)"
  using assms by simp

lemma mod_0_trans:
  fixes n :: nat
  assumes "n mod q = 0" "p dvd q"
  shows "n mod p = 0"
proof -
  from assms(1) have "q dvd n" by (simp add: mod_eq_0_iff_dvd)
  with assms(2) have "p dvd n" by (rule dvd_trans)
  then show ?thesis by (simp add: mod_eq_0_iff_dvd)
qed

lemma days_before_year_Suc:
  "1 \<le> y \<Longrightarrow> days_before_year (Suc y) = days_before_year y + (if is_leap y then 366 else 365)"
proof -
  assume "1 \<le> y"
  then obtain k where y: "y = Suc k" by (cases y) simp_all
  define a b c where "a = k div 4" and "b = k div 100" and "c = k div 400"
  define da db dc :: nat where "da = (if Suc k mod 4 = 0 then 1 else 0)"
    and "db = (if Suc k mod 100 = 0 then 1 else 0)"
    and "dc = (if Suc k mod 400 = 0 then 1 else 0)"
  have ba: "b \<le> a" unfolding a_def b_def by (rule div_le_mono2) simp_all
  have e: "Suc k mod 100 = 0 \<Longrightarrow> Suc k mod 4 = 0"
    by (rule mod_0_trans [where q = 100]) simp_all
  have f: "Suc k mod 400 = 0 \<Longrightarrow> Suc k mod 100 = 0"
    by (rule mod_0_trans [where q = 400]) simp_all
  have dba: "db \<le> da" using e by (simp add: da_def db_def)
  have dcb: "dc \<le> db" using f by (simp add: db_def dc_def)
  have a': "Suc k div 4 = a + da" by (simp add: div_Suc a_def da_def)
  have b': "Suc k div 100 = b + db" by (simp add: div_Suc b_def db_def)
  have c': "Suc k div 400 = c + dc" by (simp add: div_Suc c_def dc_def)
  have leap: "(if is_leap (Suc k) then 366 else 365) = 365 + da - db + dc"
    using e f by (auto simp: is_leap_def da_def db_def dc_def)
  have "days_before_year (Suc (Suc k)) = Suc k * 365 + (a + da) - (b + db) + (c + dc)"
    by (simp add: days_before_year_def a' b' c')
  also have "\<dots> = k * 365 + a - b + c + (365 + da - db + dc)"
    by (rule leap_step_arith [OF ba dba dcb])
  also have "\<dots> = days_before_year (Suc k) + (if is_leap (Suc k) then 366 else 365)"
    by (simp only: leap) (simp add: days_before_year_def a_def b_def c_def)
  finally show ?thesis unfolding y .
qed

lemma days_before_year_mono: "1 \<le> y \<Longrightarrow> y \<le> y' \<Longrightarrow> days_before_year y \<le> days_before_year y'"
proof (induction y')
  case 0
  then show ?case by simp
next
  case (Suc k)
  show ?case
  proof (cases "y = Suc k")
    case True
    then show ?thesis by simp
  next
    case False
    with Suc.prems have "y \<le> k" "1 \<le> k" by simp_all
    with Suc.IH Suc.prems days_before_year_Suc [of k] show ?thesis by simp
  qed
qed

lemma days_in_month_pos: "0 < days_in_month y m"
  by (simp add: days_in_month_def)

lemma toordinal_next_day:
  assumes "valid_date dt"
  shows "toordinal (next_day dt) = toordinal dt + 1"
proof (cases dt)
  case (Date y m d)
  with assms have v: "1 \<le> y" "1 \<le> m" "m \<le> 12" "1 \<le> d" "d \<le> days_in_month y m"
    by simp_all
  show ?thesis
  proof (cases "d < days_in_month y m")
    case True
    with Date show ?thesis by simp
  next
    case False
    with v have d: "d = days_in_month y m" by simp
    show ?thesis
    proof (cases "m < 12")
      case True
      with Date d v days_before_month_Suc [of m y] show ?thesis by simp
    next
      case False
      with v have m: "m = 12" by simp
      have "days_before_month y 13 = days_before_month y 12 + days_in_month y 12"
        using days_before_month_Suc [of 12 y] by simp
      with Date d m v days_before_year_Suc [of y] days_before_month_13 [of y]
      show ?thesis by (simp add: days_before_month_1)
    qed
  qed
qed

lemma valid_next_day:
  assumes "valid_date dt" "dt \<noteq> Date 9999 12 31"
  shows "valid_date (next_day dt)"
proof (cases dt)
  case (Date y m d)
  with assms have v: "1 \<le> y" "y \<le> 9999" "1 \<le> m" "m \<le> 12" "1 \<le> d" "d \<le> days_in_month y m"
    by simp_all
  show ?thesis
  proof (cases "d < days_in_month y m")
    case True
    with Date v show ?thesis by simp
  next
    case False
    with v have d: "d = days_in_month y m" by simp
    show ?thesis
    proof (cases "m < 12")
      case True
      with Date v d show ?thesis by (simp add: days_in_month_pos Suc_leI)
    next
      case False
      with v have m: "m = 12" by simp
      with d have "d = 31" by (simp add: days_in_month_def)
      with assms(2) Date m have "y \<noteq> 9999" by simp
      with Date v m d show ?thesis by (simp add: days_in_month_def)
    qed
  qed
qed

lemma toordinal_year_bounds:
  assumes "valid_date (Date y m d)"
  shows "days_before_year y < toordinal (Date y m d)"
    and "toordinal (Date y m d) \<le> days_before_year (Suc y)"
proof -
  from assms have v: "1 \<le> y" "1 \<le> m" "m \<le> 12" "1 \<le> d" "d \<le> days_in_month y m"
    by simp_all
  show "days_before_year y < toordinal (Date y m d)" using v by simp
  have "days_before_month y m + d \<le> days_before_month y (Suc m)"
    using v by (simp add: days_before_month_Suc)
  also have "\<dots> \<le> days_before_month y 13"
    using v by (intro days_before_month_mono) simp
  finally show "toordinal (Date y m d) \<le> days_before_year (Suc y)"
    using v by (simp add: days_before_year_Suc days_before_month_13)
qed

lemma toordinal_less:
  assumes "valid_date a" "valid_date b" "date_less a b"
  shows "toordinal a < toordinal b"
proof (cases a)
  case a: (Date y1 m1 d1)
  show ?thesis
  proof (cases b)
    case b: (Date y2 m2 d2)
    from assms a b have va: "1 \<le> y1" "1 \<le> m1" "m1 \<le> 12" "1 \<le> d1" "d1 \<le> days_in_month y1 m1"
      and vb: "1 \<le> y2" "1 \<le> m2" "m2 \<le> 12" "1 \<le> d2" "d2 \<le> days_in_month y2 m2"
      by simp_all
    from assms a b consider "y1 < y2" | "y1 = y2" "m1 < m2" | "y1 = y2" "m1 = m2" "d1 < d2"
      by auto
    then show ?thesis
    proof cases
      case 1
      have "toordinal a \<le> days_before_year (Suc y1)"
        using toordinal_year_bounds(2) assms(1) a by simp
      also have "\<dots> \<le> days_before_year y2"
        using 1 by (intro days_before_year_mono) simp_all
      also have "\<dots> < toordinal b"
        using toordinal_year_bounds(1) assms(2) b by simp
      finally show ?thesis .
    next
      case 2
      have "days_before_month y1 m1 + d1 \<le> days_before_month y1 (Suc m1)"
        using va by (simp add: days_before_month_Suc)
      also have "\<dots> \<le> days_before_month y1 m2"
        using 2 by (intro days_before_month_mono) simp
      finally show ?thesis using a b 2 vb by simp
    next
      case 3
      with a b show ?thesis by simp
    qed
  qed
qed

lemma date_less_total: "a = b \<or> date_less a b \<or> date_less b a"
  by (cases a; cases b) auto

lemma toordinal_inj:
  assumes "valid_date a" "valid_date b" "toordinal a = toordinal b"
  shows "a = b"
  using date_less_total [of a b] toordinal_less [of a b] toordinal_less [of b a] assms
  by auto

lemma toordinal_less_iff:
  assumes "valid_date a" "valid_date b"
  shows "date_less a b \<longleftrightarrow> toordinal a < toordinal b"
  using date_less_total [of a b] toordinal_less [of a b] toordinal_less [of b a] assms
  by auto

lemma toordinal_le_iff:
  assumes "valid_date a" "valid_date b"
  shows "date_le a b \<longleftrightarrow> toordinal a \<le> toordinal b"
  using toordinal_less_iff [OF assms] toordinal_inj [OF assms]
  by (auto simp: date_le_def)

lemma valid_date_max: "valid_date (Date 9999 12 31)"
  by (simp add: days_in_month_def)

lemma date_le_max: "valid_date a \<Longrightarrow> date_le a (Date 9999 12 31)"
  by (cases a) (auto simp: date_le_def days_in_month_def split: if_splits)

subsection \<open>Adding days\<close>

lemma add_days_ok:
  assumes "valid_date s" "toordinal s + i \<le> toordinal (Date 9999 12 31)"
  shows "add_days s i = Inr ((next_day ^^ i) s)
       \<and> valid_date ((next_day ^^ i) s)
       \<and> toordinal ((next_day ^^ i) s) = toordinal s + i"
  using assms
proof (induction i arbitrary: s)
  case 0
  then show ?case by simp
next
  case (Suc i)
  from Suc.prems have ne: "s \<noteq> Date 9999 12 31" by auto
  with Suc.prems have v: "valid_date (next_day s)" by (simp add: valid_next_day)
  have o: "toordinal (next_day s) = toordinal s + 1"
    using Suc.prems by (simp add: toordinal_next_day)
  with Suc.prems have "toordinal (next_day s) + i \<le> toordinal (Date 9999 12 31)" by simp
  from Suc.IH [OF v this] ne o show ?case
    by (simp add: funpow_swap1)
qed

lemma get_dates_loop_fold:
  assumes "\<And>i. i \<in> set js \<Longrightarrow> add_days s i = Inr (f i)"
  shows "get_dates_loop s js dic = Inr (foldl add_date dic (map (\<lambda>i. strftime (f i)) js))"
  using assms by (induction js arbitrary: dic) simp_all

subsection \<open>Date texts\<close>

lemma digits_val_append:
  "digits_val (xs @ [c]) = 10 * digits_val xs + (c - 48)"
  by (simp add: digits_val_def)

lemma digits_val_str_nat: "digits_val (str_nat n) = n"
proof (induction n rule: str_nat.induct)
  case (1 n)
  show ?case
  proof (cases "n < 10")
    case True
    then show ?thesis by (simp add: str_nat_small digits_val_def)
  next
    case False
    then have "str_nat n = str_nat (n div 10) @ [48 + n mod 10]"
      by (simp add: str_nat_step)
    with 1 False show ?thesis by (simp add: digits_val_append)
  qed
qed

lemma str_nat_inj: "str_nat a = str_nat b \<Longrightarrow> a = b"
proof -
  assume "str_nat a = str_nat b"
  then have "digits_val (str_nat a) = digits_val (str_nat b)" by (rule arg_cong)
  then show ?thesis by (simp only: digits_val_str_nat)
qed

lemma length_fmt02_nat: "n \<le> 99 \<Longrightarrow> length (fmt02 (int n)) = 2"
  by (rule length_fmt02) simp_all

lemma take7_strftime:
  assumes "1000 \<le> year dt" "year dt \<le> 9999" "month dt \<le> 99"
  shows "take 7 (strftime dt) = str_nat (year dt) @ ascii ''-'' @ fmt02 (int (month dt))"
proof -
  have "length (str_nat (year dt)) = 4" using assms by (simp add: length_str_nat_4)
  moreover have "length (fmt02 (int (month dt))) = 2" using assms by (simp add: length_fmt02_nat)
  ultimately show ?thesis by (simp add: strftime_def ascii_def)
qed

lemma str_nat_digits: "c \<in> set (str_nat n) \<Longrightarrow> 48 \<le> c \<and> c \<le> 57"
proof (induction n rule: str_nat.induct)
  case (1 n)
  show ?case
  proof (cases "n < 10")
    case True
    with 1(2) show ?thesis by (simp add: str_nat_small)
  next
    case False
    then have s: "str_nat n = str_nat (n div 10) @ [48 + n mod 10]"
      by (simp add: str_nat_step)
    from 1(2) have "c \<in> set (str_nat (n div 10) @ [48 + n mod 10])" by (simp only: s)
    then have "c \<in> set (str_nat (n div 10)) \<or> c = 48 + n mod 10" by auto
    then show ?thesis
    proof
      assume "c \<in> set (str_nat (n div 10))"
      with 1(1) False show ?thesis by simp
    next
      assume c: "c = 48 + n mod 10"
      have "n mod 10 < 10" by simp
      with c show ?thesis by linarith
    qed
  qed
qed

lemma takeWhile_str_nat:
  "takeWhile (\<lambda>c. c \<noteq> 45) (str_nat n @ 45 # rest) = str_nat n"
proof -
  have "\<forall>c\<in>set (str_nat n). c \<noteq> 45"
    using str_nat_digits [of _ n] by fastforce
  then show ?thesis by (simp add: takeWhile_append2)
qed

lemma fmt02_digits: "n \<le> 99 \<Longrightarrow> fmt02 (int n) = [48 + n div 10, 48 + n mod 10]"
proof (cases "n < 10")
  case True
  then show ?thesis by (simp add: fmt02_def str_nat_small)
next
  case False
  assume "n \<le> 99"
  with False have d: "n div 10 < 10" by simp
  from False have "str_nat n = str_nat (n div 10) @ [48 + n mod 10]"
    by (simp add: str_nat_step)
  with d show ?thesis by (simp add: fmt02_def str_nat_small)
qed

lemma digits_eq:
  fixes a b :: nat
  assumes "48 + a div 10 = 48 + b div 10" "48 + a mod 10 = 48 + b mod 10"
  shows "a = b"
proof -
  from assms have "a div 10 = b div 10" "a mod 10 = b mod 10" by simp_all
  then have "10 * (a div 10) + a mod 10 = 10 * (b div 10) + b mod 10" by simp
  then show ?thesis by (simp only: mult_div_mod_eq)
qed

lemma strftime_digits:
  assumes "month dt \<le> 99" "day dt \<le> 99"
  shows "strftime dt = str_nat (year dt) @ 45 #
     [48 + month dt div 10, 48 + month dt mod 10, 45, 48 + day dt div 10, 48 + day dt mod 10]"
  using assms by (simp add: strftime_def fmt02_digits ascii_def)

lemma take7_cases:
  assumes "year dt \<le> 9999" "month dt \<le> 99" "day dt \<le> 99"
  shows "take 7 (strftime dt) = str_nat (year dt) @ 45 #
     (if year dt < 10
      then [48 + month dt div 10, 48 + month dt mod 10, 45, 48 + day dt div 10, 48 + day dt mod 10]
      else if year dt < 100
      then [48 + month dt div 10, 48 + month dt mod 10, 45, 48 + day dt div 10]
      else if year dt < 1000
      then [48 + month dt div 10, 48 + month dt mod 10, 45]
      else [48 + month dt div 10, 48 + month dt mod 10])"
proof -
  note s = strftime_digits [OF assms(2,3)]
  consider "year dt < 10" | "10 \<le> year dt" "year dt < 100" | "100 \<le> year dt" "year dt < 1000"
    | "1000 \<le> year dt" "year dt < 10000"
    using assms(1) by linarith
  then show ?thesis
  proof cases
    case 1
    then have "length (str_nat (year dt)) = 1" by (rule length_str_nat_1)
    with 1 show ?thesis unfolding s by simp
  next
    case 2
    then have "length (str_nat (year dt)) = 2" by (rule length_str_nat_2)
    with 2 show ?thesis unfolding s by simp
  next
    case 3
    then have "length (str_nat (year dt)) = 3" by (rule length_str_nat_3)
    with 3 show ?thesis unfolding s by simp
  next
    case 4
    then have "length (str_nat (year dt)) = 4" by (rule length_str_nat_4)
    with 4 show ?thesis unfolding s by simp
  qed
qed

lemma rank_parts:
  fixes A B p q :: nat
  assumes "A * 32 + p = B * 32 + q" "p < 32" "q < 32"
  shows "A = B \<and> p = q"
proof -
  from assms(2) have "(A * 32 + p) div 32 = A" by simp
  moreover from assms(3) have "(B * 32 + q) div 32 = B" by simp
  ultimately have "A = B" using assms(1) by simp
  with assms(1) show ?thesis by simp
qed

subsection \<open>Grouping by month\<close>

lemma add_date_other:
  "k \<notin> fst ` set d \<Longrightarrow>
   map (\<lambda>(k', v). if k' = k then (k', v @ [x]) else (k', v)) d = d"
  by (induction d) auto

lemma add_date_new:
  assumes "take 7 x \<notin> fst ` set dic"
  shows "add_date dic x = dic @ [(take 7 x, [x])]"
  using assms by (simp add: add_date_def Let_def add_date_other)

lemma add_date_last:
  assumes "take 7 x \<notin> fst ` set d"
  shows "add_date (d @ [(take 7 x, v)]) x = d @ [(take 7 x, v @ [x])]"
  using assms by (simp add: add_date_def Let_def add_date_other)

lemma add_date_step:
  assumes mb: "month_buckets dic xs"
    and keys: "fst ` set dic = take 7 ` set xs"
    and lst: "xs \<noteq> [] \<Longrightarrow> dic \<noteq> [] \<and> fst (last dic) = take 7 (last xs)"
    and adj: "take 7 x \<in> take 7 ` set xs \<Longrightarrow> xs \<noteq> [] \<and> take 7 (last xs) = take 7 x"
  shows "month_buckets (add_date dic x) (xs @ [x])
       \<and> fst ` set (add_date dic x) = take 7 ` set (xs @ [x])
       \<and> add_date dic x \<noteq> [] \<and> fst (last (add_date dic x)) = take 7 x"
proof (cases "take 7 x \<in> fst ` set dic")
  case False
  then have a: "add_date dic x = dic @ [(take 7 x, [x])]" by (rule add_date_new)
  from False mb keys show ?thesis unfolding a month_buckets_def by auto
next
  case True
  with keys adj have ne: "xs \<noteq> []" and k: "take 7 (last xs) = take 7 x" by auto
  from lst [OF ne] k have dne: "dic \<noteq> []" and fl: "fst (last dic) = take 7 x" by simp_all
  obtain d v where dic: "dic = d @ [(take 7 x, v)]"
    using dne fl by (cases dic rule: rev_cases) auto
  from mb dic have notin: "take 7 x \<notin> fst ` set d" by (auto simp: month_buckets_def)
  have a: "add_date (d @ [(take 7 x, v)]) x = d @ [(take 7 x, v @ [x])]"
    by (rule add_date_last [OF notin])
  from mb keys notin show ?thesis unfolding dic a month_buckets_def by auto
qed

lemma add_date_fold:
  assumes adj: "\<And>ys z zs. xs = ys @ z # zs \<Longrightarrow> take 7 z \<in> take 7 ` set ys
      \<Longrightarrow> ys \<noteq> [] \<and> take 7 (last ys) = take 7 z"
  shows "month_buckets (foldl add_date [] xs) xs
       \<and> fst ` set (foldl add_date [] xs) = take 7 ` set xs
       \<and> (xs \<noteq> [] \<longrightarrow> foldl add_date [] xs \<noteq> []
            \<and> fst (last (foldl add_date [] xs)) = take 7 (last xs))"
  using adj
proof (induction xs rule: rev_induct)
  case Nil
  show ?case by (simp add: month_buckets_def)
next
  case (snoc x xs)
  have ih: "month_buckets (foldl add_date [] xs) xs
       \<and> fst ` set (foldl add_date [] xs) = take 7 ` set xs
       \<and> (xs \<noteq> [] \<longrightarrow> foldl add_date [] xs \<noteq> []
            \<and> fst (last (foldl add_date [] xs)) = take 7 (last xs))"
  proof (rule snoc.IH)
    fix ys z zs
    assume "xs = ys @ z # zs" and m: "take 7 z \<in> take 7 ` set ys"
    then have "xs @ [x] = ys @ z # (zs @ [x])" by simp
    from snoc.prems [OF this m] show "ys \<noteq> [] \<and> take 7 (last ys) = take 7 z" .
  qed
  have adjx: "take 7 x \<in> take 7 ` set xs \<Longrightarrow> xs \<noteq> [] \<and> take 7 (last xs) = take 7 x"
    using snoc.prems [of xs x "[]"] by simp
  have "month_buckets (add_date (foldl add_date [] xs) x) (xs @ [x])
       \<and> fst ` set (add_date (foldl add_date [] xs) x) = take 7 ` set (xs @ [x])
       \<and> add_date (foldl add_date [] xs) x \<noteq> []
       \<and> fst (last (add_date (foldl add_date [] xs) x)) = take 7 x"
    using ih adjx by (intro add_date_step) simp_all
  then show ?case by simp
qed

subsection \<open>The month buckets of a date range\<close>

lemma adjacent_keys:
  fixes h :: "'a \<Rightarrow> nat"
  assumes srt: "sorted (map h L)"
    and key: "\<And>a b. a \<in> set L \<Longrightarrow> b \<in> set L \<Longrightarrow> (take 7 (f a) = take 7 (f b)) = (h a = h b)"
    and split: "map f L = ys @ z # zs"
    and mem: "take 7 z \<in> take 7 ` set ys"
  shows "ys \<noteq> [] \<and> take 7 (last ys) = take 7 z"
proof -
  from split obtain L1 c L2 where L: "L = L1 @ c # L2"
    and ys: "ys = map f L1" and z: "z = f c"
    by (auto simp: map_eq_append_conv map_eq_Cons_conv)
  from mem ys z obtain a where a: "a \<in> set L1" and ka: "take 7 (f a) = take 7 (f c)"
    by auto
  from a have ne: "L1 \<noteq> []" by auto
  from a L ka key [of a c] have hac: "h a = h c" by simp
  from srt L have "\<forall>x\<in>set L1. h x \<le> h c" and s1: "sorted (map h L1)"
    by (auto simp: sorted_append)
  with ne have le2: "h (last L1) \<le> h c" by simp
  from s1 a ne have "h a \<le> h (last L1)"
    by (induction L1 rule: rev_induct) (auto simp: sorted_append)
  with hac le2 have "h (last L1) = h c" by simp
  with key [of "last L1" c] L ne have "take 7 (f (last L1)) = take 7 (f c)" by simp
  with ne ys z show ?thesis by (simp add: last_map)
qed

lemma month_number_inj:
  fixes y1 y2 m1 m2 :: nat
  assumes "1 \<le> m1" "m1 \<le> 12" "1 \<le> m2" "m2 \<le> 12"
    and eq: "y1 * 12 + m1 = y2 * 12 + m2"
  shows "y1 = y2 \<and> m1 = m2"
proof -
  have less: "a * 12 + p \<noteq> b * 12 + q" if "a < b" "p \<le> 12" "1 \<le> q" for a b p q :: nat
  proof -
    from that have "Suc a \<le> b" by simp
    then have "Suc a * 12 \<le> b * 12" by (rule mult_le_mono1)
    then have "a * 12 + 12 \<le> b * 12" by simp
    with that show ?thesis by linarith
  qed
  have "y1 = y2"
  proof (rule ccontr)
    assume "y1 \<noteq> y2"
    then consider "y1 < y2" | "y2 < y1" by (cases "y1 < y2") simp_all
    then show False
    proof cases
      case 1
      from less [OF 1 assms(2) assms(3)] eq show False by simp
    next
      case 2
      from less [OF 2 assms(4) assms(1)] eq show False by simp
    qed
  qed
  with eq show ?thesis by simp
qed

lemma days_in_month_le: "days_in_month y m \<le> 31"
  by (simp add: days_in_month_def)

lemma valid_date_bounds:
  "valid_date dt \<Longrightarrow> 1 \<le> year dt \<and> year dt \<le> 9999 \<and> 1 \<le> month dt \<and> month dt \<le> 12
     \<and> 1 \<le> day dt \<and> day dt \<le> 31"
proof (cases dt)
  case (Date y m d)
  assume "valid_date dt"
  with Date days_in_month_le [of y m] show ?thesis by simp
qed

lemma year_of_key:
  assumes "year a \<le> 9999" "month a \<le> 99" "day a \<le> 99"
  shows "takeWhile (\<lambda>c. c \<noteq> 45) (take 7 (strftime a)) = str_nat (year a)"
  unfolding take7_cases [OF assms] by (rule takeWhile_str_nat)

lemma take7_eq_rank:
  assumes va: "valid_date a" and vb: "valid_date b"
  shows "(take 7 (strftime a) = take 7 (strftime b)) = (key_rank a = key_rank b)"
proof -
  note ba = valid_date_bounds [OF va] and bb = valid_date_bounds [OF vb]
  from ba have ra: "year a \<le> 9999" "month a \<le> 99" "day a \<le> 99" by simp_all
  from bb have rb: "year b \<le> 9999" "month b \<le> 99" "day b \<le> 99" by simp_all
  note ka = take7_cases [OF ra] and kb = take7_cases [OF rb]
  show ?thesis
  proof
    assume eq: "take 7 (strftime a) = take 7 (strftime b)"
    then have "takeWhile (\<lambda>c. c \<noteq> 45) (take 7 (strftime a))
        = takeWhile (\<lambda>c. c \<noteq> 45) (take 7 (strftime b))"
      by simp
    then have "str_nat (year a) = str_nat (year b)"
      by (simp only: year_of_key [OF ra] year_of_key [OF rb])
    then have y: "year a = year b" by (rule str_nat_inj)
    consider "year a < 10" | "10 \<le> year a" "year a < 100" | "100 \<le> year a"
      by linarith
    then show "key_rank a = key_rank b"
    proof cases
      case 1
      with eq y have "48 + month a div 10 = 48 + month b div 10"
        "48 + month a mod 10 = 48 + month b mod 10"
        "48 + day a div 10 = 48 + day b div 10"
        "48 + day a mod 10 = 48 + day b mod 10"
        unfolding ka kb by simp_all
      then have "month a = month b" "day a = day b" by (blast intro: digits_eq)+
      with y show ?thesis by (simp add: key_rank_def)
    next
      case 2
      with eq y have "48 + month a div 10 = 48 + month b div 10"
        "48 + month a mod 10 = 48 + month b mod 10"
        "48 + day a div 10 = 48 + day b div 10"
        unfolding ka kb by simp_all
      then have "month a = month b" "day a div 10 = day b div 10"
        by (blast intro: digits_eq, simp)
      with y 2 show ?thesis by (simp add: key_rank_def)
    next
      case 3
      with eq y have "48 + month a div 10 = 48 + month b div 10"
        "48 + month a mod 10 = 48 + month b mod 10"
        unfolding ka kb by (simp_all split: if_splits)
      then have "month a = month b" by (rule digits_eq)
      with y 3 show ?thesis by (simp add: key_rank_def)
    qed
  next
    assume eq: "key_rank a = key_rank b"
    let ?pa = "if year a < 10 then day a else if year a < 100 then day a div 10 else 0"
    let ?pb = "if year b < 10 then day b else if year b < 100 then day b div 10 else 0"
    have "day a div 10 \<le> day a" "day b div 10 \<le> day b" by (rule div_le_dividend)+
    with ba bb have pa: "?pa < 32" and pb: "?pb < 32" by auto
    from eq have "(year a * 12 + month a) * 32 + ?pa = (year b * 12 + month b) * 32 + ?pb"
      by (simp only: key_rank_def)
    from rank_parts [OF this pa pb]
    have ym: "year a * 12 + month a = year b * 12 + month b" and p: "?pa = ?pb"
      by simp_all
    from ba bb have "1 \<le> month a" "month a \<le> 12" "1 \<le> month b" "month b \<le> 12"
      by simp_all
    from month_number_inj [OF this ym] have y: "year a = year b" and m: "month a = month b"
      by simp_all
    show "take 7 (strftime a) = take 7 (strftime b)"
      unfolding ka kb using y m p by (simp split: if_splits)
  qed
qed

lemma strftime_inj_valid:
  assumes va: "valid_date a" and vb: "valid_date b" and eq: "strftime a = strftime b"
  shows "a = b"
proof -
  note ba = valid_date_bounds [OF va] and bb = valid_date_bounds [OF vb]
  from ba have ra: "month a \<le> 99" "day a \<le> 99" by simp_all
  from bb have rb: "month b \<le> 99" "day b \<le> 99" by simp_all
  note sa = strftime_digits [OF ra] and sb = strftime_digits [OF rb]
  from eq have "takeWhile (\<lambda>c. c \<noteq> 45) (strftime a) = takeWhile (\<lambda>c. c \<noteq> 45) (strftime b)"
    by simp
  then have "str_nat (year a) = str_nat (year b)"
    unfolding sa sb by (simp only: takeWhile_str_nat)
  then have y: "year a = year b" by (rule str_nat_inj)
  with eq have "48 + month a div 10 = 48 + month b div 10"
    "48 + month a mod 10 = 48 + month b mod 10"
    "48 + day a div 10 = 48 + day b div 10"
    "48 + day a mod 10 = 48 + day b mod 10"
    unfolding sa sb by simp_all
  then have "month a = month b" "day a = day b" by (blast intro: digits_eq)+
  with y show ?thesis by (simp add: date.expand)
qed

lemma key_rank_next_day:
  assumes "valid_date dt"
  shows "key_rank dt \<le> key_rank (next_day dt)"
proof (cases dt)
  case (Date y m d)
  from assms Date have d31: "d \<le> 31" using days_in_month_le [of y m] by simp
  define p :: "nat \<Rightarrow> nat \<Rightarrow> nat"
    where "p = (\<lambda>y d. if y < 10 then d else if y < 100 then d div 10 else 0)"
  have kr: "key_rank (Date y' m' d') = (y' * 12 + m') * 32 + p y' d'" for y' m' d'
    by (simp add: key_rank_def p_def)
  have "d div 10 \<le> d" by (rule div_le_dividend)
  with d31 have p32: "p y d \<le> 32" by (auto simp: p_def)
  consider "d < days_in_month y m" | "\<not> d < days_in_month y m" "m < 12"
    | "\<not> d < days_in_month y m" "\<not> m < 12"
    by blast
  then show ?thesis
  proof cases
    case 1
    then have nd: "next_day (Date y m d) = Date y m (d + 1)" by simp
    have "d div 10 \<le> (d + 1) div 10" by (rule div_le_mono) simp
    then have "p y d \<le> p y (d + 1)" by (simp add: p_def)
    then show ?thesis unfolding Date nd kr by simp
  next
    case 2
    then have nd: "next_day (Date y m d) = Date y (m + 1) 1" by simp
    have "(y * 12 + m) * 32 + p y d \<le> (y * 12 + m) * 32 + 32" using p32 by simp
    also have "\<dots> = (y * 12 + (m + 1)) * 32" by simp
    also have "\<dots> \<le> (y * 12 + (m + 1)) * 32 + p y 1" by simp
    finally show ?thesis unfolding Date nd kr .
  next
    case 3
    then have nd: "next_day (Date y m d) = Date (y + 1) 1 1" by simp
    from assms Date 3 have m12: "m = 12" by simp
    have "(y * 12 + m) * 32 + p y d \<le> (y * 12 + m) * 32 + 32" using p32 by simp
    also have "\<dots> = ((y + 1) * 12 + 1) * 32" using m12 by simp
    also have "\<dots> \<le> ((y + 1) * 12 + 1) * 32 + p (y + 1) 1" by simp
    finally show ?thesis unfolding Date nd kr .
  qed
qed

lemma key_rank_funpow_mono:
  assumes "\<And>l. l < j \<Longrightarrow> valid_date ((next_day ^^ l) s)" "i \<le> j"
  shows "key_rank ((next_day ^^ i) s) \<le> key_rank ((next_day ^^ j) s)"
  using assms
proof (induction j)
  case 0
  then show ?case by simp
next
  case (Suc j)
  show ?case
  proof (cases "i = Suc j")
    case True
    then show ?thesis by simp
  next
    case False
    with Suc.prems have ij: "i \<le> j" by simp
    have "key_rank ((next_day ^^ i) s) \<le> key_rank ((next_day ^^ j) s)"
      using Suc.prems ij by (intro Suc.IH) simp_all
    also have "\<dots> \<le> key_rank ((next_day ^^ Suc j) s)"
      using key_rank_next_day [of "(next_day ^^ j) s"] Suc.prems(1) [of j] by simp
    finally show ?thesis .
  qed
qed

lemma valid_date_fields:
  "valid_date dt \<Longrightarrow> year dt \<le> 9999 \<and> month dt \<le> 99"
  by (cases dt) simp

lemma date_range_buckets:
  assumes vs: "valid_date s" and ve: "valid_date e"
    and le: "date_le s e"
  defines "L \<equiv> map (\<lambda>i. (next_day ^^ i) s) [0 ..< Suc (toordinal e - toordinal s)]"
  shows "get_dates s e = Inr (foldl add_date [] (map strftime L))"
    and "month_buckets (foldl add_date [] (map strftime L)) (map strftime L)"
    and "sorted_wrt date_less L"
    and "set L = {d. valid_date d \<and> date_le s d \<and> date_le d e}"
    and "distinct (map strftime L)"
    and "\<forall>d\<in>set L. 1000 \<le> year d
           \<longrightarrow> take 7 (strftime d) = str_nat (year d) @ ascii ''-'' @ fmt02 (int (month d))"
proof -
  define n where "n = Suc (toordinal e - toordinal s)"
  have L: "L = map (\<lambda>i. (next_day ^^ i) s) [0 ..< n]"
    unfolding L_def n_def ..
  have len: "length L = n" by (simp add: L)
  have nth: "L ! i = (next_day ^^ i) s" if "i < n" for i
    using that by (simp add: L)
  have mem: "\<exists>i<n. d = (next_day ^^ i) s" if "d \<in> set L" for d
    using that by (auto simp: L)
  from le vs ve have ose: "toordinal s \<le> toordinal e" by (simp add: toordinal_le_iff)
  have emax: "toordinal e \<le> toordinal (Date 9999 12 31)"
    using date_le_max [OF ve] ve valid_date_max by (simp add: toordinal_le_iff)
  have step: "add_days s i = Inr ((next_day ^^ i) s)
       \<and> valid_date ((next_day ^^ i) s)
       \<and> toordinal ((next_day ^^ i) s) = toordinal s + i" if "i < n" for i
    using that ose emax by (intro add_days_ok [OF vs]) (simp add: n_def)
  have nn: "nat (int (toordinal e) - int (toordinal s) + 1) = n"
    using ose by (simp add: n_def)
  have run: "add_days s i = Inr ((next_day ^^ i) s)" if "i \<in> set [0 ..< n]" for i
    using that step [of i] by simp
  show gd: "get_dates s e = Inr (foldl add_date [] (map strftime L))"
    unfolding get_dates_def nn L map_map comp_def
    by (rule get_dates_loop_fold) (rule run)
  have valid: "valid_date d" if "d \<in> set L" for d
  proof -
    from mem [OF that] obtain i where "i < n" "d = (next_day ^^ i) s" by blast
    with step [of i] show ?thesis by simp
  qed
  have key: "(take 7 (strftime a) = take 7 (strftime b)) = (key_rank a = key_rank b)"
    if "a \<in> set L" "b \<in> set L" for a b
    using that by (intro take7_eq_rank valid)
  have srt: "sorted (map key_rank L)"
    unfolding sorted_iff_nth_mono
  proof (intro allI impI)
    fix i j assume ij: "i \<le> j" and j: "j < length (map key_rank L)"
    then have jn: "j < n" and inn: "i < n" by (simp_all add: len)
    have "key_rank ((next_day ^^ i) s) \<le> key_rank ((next_day ^^ j) s)"
    proof (rule key_rank_funpow_mono)
      fix l assume "l < j"
      with jn have "l < n" by simp
      with step [of l] show "valid_date ((next_day ^^ l) s)" by simp
    qed (rule ij)
    with inn jn show "map key_rank L ! i \<le> map key_rank L ! j"
      by (simp add: len nth)
  qed
  show "month_buckets (foldl add_date [] (map strftime L)) (map strftime L)"
  proof -
    have "month_buckets (foldl add_date [] (map strftime L)) (map strftime L)
       \<and> fst ` set (foldl add_date [] (map strftime L)) = take 7 ` set (map strftime L)
       \<and> (map strftime L \<noteq> [] \<longrightarrow> foldl add_date [] (map strftime L) \<noteq> []
            \<and> fst (last (foldl add_date [] (map strftime L))) = take 7 (last (map strftime L)))"
    proof (rule add_date_fold)
      fix ys z zs
      assume sp: "map strftime L = ys @ z # zs" and m: "take 7 z \<in> take 7 ` set ys"
      show "ys \<noteq> [] \<and> take 7 (last ys) = take 7 z"
        by (rule adjacent_keys [where L = L and f = strftime and h = key_rank,
              OF srt key sp m])
    qed
    then show ?thesis by simp
  qed
  show sw: "sorted_wrt date_less L"
    unfolding sorted_wrt_iff_nth_less
  proof (intro allI impI)
    fix i j assume ij: "i < j" and j: "j < length L"
    then have jn: "j < n" and inn: "i < n" by (simp_all add: len)
    from step [OF jn] step [OF inn] ij
    have "valid_date ((next_day ^^ i) s)" "valid_date ((next_day ^^ j) s)"
      "toordinal ((next_day ^^ i) s) < toordinal ((next_day ^^ j) s)"
      by simp_all
    then have "date_less ((next_day ^^ i) s) ((next_day ^^ j) s)"
      by (simp add: toordinal_less_iff)
    with jn inn show "date_less (L ! i) (L ! j)"
      by (simp add: nth)
  qed
  show "set L = {d. valid_date d \<and> date_le s d \<and> date_le d e}"
  proof (intro set_eqI iffI)
    fix d assume "d \<in> set L"
    from mem [OF this] obtain i where i: "i < n" and d: "d = (next_day ^^ i) s" by blast
    from i have "toordinal s + i \<le> toordinal e" using ose by (simp add: n_def)
    with step [OF i] d have vd: "valid_date d" and o1: "toordinal s \<le> toordinal d"
      and o2: "toordinal d \<le> toordinal e"
      by simp_all
    from o1 have "date_le s d" by (simp add: toordinal_le_iff [OF vs vd])
    moreover from o2 have "date_le d e" by (simp add: toordinal_le_iff [OF vd ve])
    ultimately show "d \<in> {d. valid_date d \<and> date_le s d \<and> date_le d e}"
      using vd by simp
  next
    fix d assume "d \<in> {d. valid_date d \<and> date_le s d \<and> date_le d e}"
    then have vd: "valid_date d" and dsd: "date_le s d" and dde: "date_le d e"
      by simp_all
    from dsd have sd: "toordinal s \<le> toordinal d"
      by (simp add: toordinal_le_iff [OF vs vd])
    from dde have de: "toordinal d \<le> toordinal e"
      by (simp add: toordinal_le_iff [OF vd ve])
    let ?i = "toordinal d - toordinal s"
    from sd de have i: "?i < n" by (simp add: n_def)
    from step [OF i] sd vd have "(next_day ^^ ?i) s = d"
      by (intro toordinal_inj) simp_all
    with nth [OF i] have "L ! ?i = d" by simp
    with i len show "d \<in> set L" by (metis nth_mem)
  qed
  have inj: "inj_on strftime (set L)"
  proof (rule inj_onI)
    fix a b assume ab: "a \<in> set L" "b \<in> set L" and eq: "strftime a = strftime b"
    from ab have va: "valid_date a" and vb: "valid_date b" by (simp_all add: valid)
    from va vb eq show "a = b" by (rule strftime_inj_valid)
  qed
  have "map toordinal L = map (\<lambda>i. toordinal s + i) [0 ..< n]"
    unfolding L map_map by (rule map_cong [OF refl]) (simp add: step)
  moreover have "distinct (map (\<lambda>i. toordinal s + i) [0 ..< n])"
    by (simp add: distinct_map inj_on_def)
  ultimately have "distinct (map toordinal L)" by simp
  then have "distinct L" by (simp add: distinct_map)
  with inj show "distinct (map strftime L)" by (simp add: distinct_map)
  show "\<forall>d\<in>set L. 1000 \<le> year d
           \<longrightarrow> take 7 (strftime d) = str_nat (year d) @ ascii ''-'' @ fmt02 (int (month d))"
  proof (intro ballI impI)
    fix d assume d: "d \<in> set L" and y: "1000 \<le> year d"
    from valid_date_fields [OF valid [OF d]] y
    show "take 7 (strftime d) = str_nat (year d) @ ascii ''-'' @ fmt02 (int (month d))"
      by (intro take7_strftime) simp_all
  qed
qed

text \<open>
  C3 (as amended). For valid dates \<open>s\<close> and \<open>e\<close>: when \<open>s\<close> is not after \<open>e\<close>,
  \<open>get_dates\<close> returns a dictionary whose date lists, put end to end in the order of
  the keys, are the texts of the calendar dates from \<open>s\<close> to \<open>e\<close>: every valid date
  between them, in calendar order, none twice and none missing; no key occurs twice,
  and every date stands under the key that is the first seven characters of its text,
  which is its own year-month prefix when its year has four digits. When \<open>s\<close> is after
  \<open>e\<close>, the result is the empty dictionary and no error.
\<close>

theorem get_dates_buckets:
  assumes vs: "valid_date s" and ve: "valid_date e"
  shows "(date_le s e \<longrightarrow>
           (\<exists>dic L. get_dates s e = Inr dic
              \<and> month_buckets dic (map strftime L)
              \<and> sorted_wrt date_less L
              \<and> set L = {d. valid_date d \<and> date_le s d \<and> date_le d e}
              \<and> distinct (map strftime L)
              \<and> (\<forall>d\<in>set L. 1000 \<le> year d \<longrightarrow> take 7 (strftime d)
                    = str_nat (year d) @ ascii ''-'' @ fmt02 (int (month d)))))
       \<and> (date_less e s \<longrightarrow> get_dates s e = Inr [])"
proof (intro conjI impI)
  assume le: "date_le s e"
  let ?L = "map (\<lambda>i. (next_day ^^ i) s) [0 ..< Suc (toordinal e - toordinal s)]"
  note r = date_range_buckets [OF vs ve le]
  show "\<exists>dic L. get_dates s e = Inr dic
              \<and> month_buckets dic (map strftime L)
              \<and> sorted_wrt date_less L
              \<and> set L = {d. valid_date d \<and> date_le s d \<and> date_le d e}
              \<and> distinct (map strftime L)
              \<and> (\<forall>d\<in>set L. 1000 \<le> year d \<longrightarrow> take 7 (strftime d)
                    = str_nat (year d) @ ascii ''-'' @ fmt02 (int (month d)))"
    using r by (intro exI [of _ "foldl add_date [] (map strftime ?L)"] exI [of _ ?L]) blast
next
  assume "date_less e s"
  with vs ve have "toordinal e < toordinal s" by (simp add: toordinal_less_iff)
  then have "nat (int (toordinal e) - int (toordinal s) + 1) = 0" by simp
  then show "get_dates s e = Inr []" by (simp add: get_dates_def)
qed

lemma toordinal_20250901: "toordinal (Date 2025 9 (Suc 0)) = 739495"
  by (simp add: days_before_year_def days_before_month_def days_in_month_def is_leap_def upt_rec)

lemma toordinal_20250902: "toordinal (Date 2025 9 2) = 739496"
  by (simp add: days_before_year_def days_before_month_def days_in_month_def is_leap_def upt_rec)

lemma strftime_20250901: "strftime (Date 2025 9 (Suc 0)) = ascii ''2025-09-01''"
  by (simp add: strftime_def fmt02_def str_nat.simps ascii_def)

lemma strftime_20250902: "strftime (Date 2025 9 2) = ascii ''2025-09-02''"
  by (simp add: strftime_def fmt02_def str_nat.simps ascii_def)

lemma add_days_20250901:
  "add_days (Date 2025 9 (Suc 0)) 0 = Inr (Date 2025 9 (Suc 0))"
  "add_days (Date 2025 9 (Suc 0)) (Suc 0) = Inr (Date 2025 9 2)"
  by (simp_all add: days_in_month_def)

lemma get_dates_example:
  "get_dates (Date 2025 9 1) (Date 2025 9 2)
     = Inr [(ascii ''2025-09'', [ascii ''2025-09-01'', ascii ''2025-09-02''])]"
proof -
  have n: "nat (int (toordinal (Date 2025 9 2)) - int (toordinal (Date 2025 9 (Suc 0))) + 1) = 2"
    by (simp only: toordinal_20250901 toordinal_20250902)
  have r: "[0 ..< 2] = [0, Suc 0]" by (simp add: upt_rec)
  have "get_dates (Date 2025 9 (Suc 0)) (Date 2025 9 2)
      = Inr (add_date (add_date [] (ascii ''2025-09-01'')) (ascii ''2025-09-02''))"
    unfolding get_dates_def n r
    by (simp add: add_days_20250901 strftime_20250901 strftime_20250902
        del: add_days.simps)
  also have "\<dots> = Inr [(ascii ''2025-09'', [ascii ''2025-09-01'', ascii ''2025-09-02''])]"
    by (simp add: add_date_def ascii_def)
  finally show ?thesis by simp
qed

theorem get_dates_buckets_witness:
  "valid_date (Date 2025 9 1) \<and> valid_date (Date 2025 9 2)
   \<and> date_le (Date 2025 9 1) (Date 2025 9 2)
   \<and> get_dates (Date 2025 9 1) (Date 2025 9 2)
        = Inr [(ascii ''2025-09'', [ascii ''2025-09-01'', ascii ''2025-09-02''])]
   \<and> month_buckets [(ascii ''2025-09'', [ascii ''2025-09-01'', ascii ''2025-09-02''])]
        [ascii ''2025-09-01'', ascii ''2025-09-02'']
   \<and> date_less (Date 2025 9 1) (Date 2025 9 2)
   \<and> get_dates (Date 2025 9 2) (Date 2025 9 1) = Inr []"
proof -
  let ?s = "Date 2025 9 1" and ?e = "Date 2025 9 2"
  let ?dic = "[(ascii ''2025-09'', [ascii ''2025-09-01'', ascii ''2025-09-02''])]"
  have vs: "valid_date ?s" by (simp add: days_in_month_def)
  have ve: "valid_date ?e" by (simp add: days_in_month_def)
  have lt: "date_less ?s ?e" by simp
  then have le: "date_le ?s ?e" by (simp add: date_le_def)
  from get_dates_buckets [OF vs ve] le obtain dic L where
    g: "get_dates ?s ?e = Inr dic" and mb: "month_buckets dic (map strftime L)"
    by blast
  from g [unfolded get_dates_example] have dic: "dic = ?dic" by simp
  from mb have "concat (map snd dic) = map strftime L" by (simp add: month_buckets_def)
  with dic have "map strftime L = [ascii ''2025-09-01'', ascii ''2025-09-02'']" by simp
  with mb dic have m: "month_buckets ?dic [ascii ''2025-09-01'', ascii ''2025-09-02'']" by simp
  from get_dates_buckets [OF ve vs] lt have empty: "get_dates ?e ?s = Inr []" by blast
  from vs ve le lt m empty get_dates_example show ?thesis by simp
qed

lemma toordinal_00010101: "toordinal (Date (Suc 0) (Suc 0) (Suc 0)) = 1"
  by (simp add: days_before_year_def days_before_month_def)

lemma toordinal_00010102: "toordinal (Date (Suc 0) (Suc 0) 2) = 2"
  by (simp add: days_before_year_def days_before_month_def)

lemma strftime_00010101: "strftime (Date (Suc 0) (Suc 0) (Suc 0)) = ascii ''1-01-01''"
  by (simp add: strftime_def fmt02_def str_nat.simps ascii_def)

lemma strftime_00010102: "strftime (Date (Suc 0) (Suc 0) 2) = ascii ''1-01-02''"
  by (simp add: strftime_def fmt02_def str_nat.simps ascii_def)

lemma add_days_00010101:
  "add_days (Date (Suc 0) (Suc 0) (Suc 0)) 0 = Inr (Date (Suc 0) (Suc 0) (Suc 0))"
  "add_days (Date (Suc 0) (Suc 0) (Suc 0)) (Suc 0) = Inr (Date (Suc 0) (Suc 0) 2)"
  by (simp_all add: days_in_month_def)

text \<open>
  The claim as stated fails for a year below 1000, whose text has fewer than four
  digits: the first and the second of January of the year 1 are the texts \<open>1-01-01\<close>
  and \<open>1-01-02\<close>, the first seven characters are the whole text, and the two days of
  one month stand under two keys, neither of them a year-month prefix.
\<close>

theorem get_dates_year_1_counterexample:
  "valid_date (Date 1 1 1) \<and> valid_date (Date 1 1 2) \<and> date_le (Date 1 1 1) (Date 1 1 2)
   \<and> get_dates (Date 1 1 1) (Date 1 1 2)
        = Inr [(ascii ''1-01-01'', [ascii ''1-01-01'']), (ascii ''1-01-02'', [ascii ''1-01-02''])]"
proof -
  have n: "nat (int (toordinal (Date (Suc 0) (Suc 0) 2))
      - int (toordinal (Date (Suc 0) (Suc 0) (Suc 0))) + 1) = 2"
    by (simp only: toordinal_00010101 toordinal_00010102)
  have r: "[0 ..< 2] = [0, Suc 0]" by (simp add: upt_rec)
  have "get_dates (Date (Suc 0) (Suc 0) (Suc 0)) (Date (Suc 0) (Suc 0) 2)
      = Inr (add_date (add_date [] (ascii ''1-01-01'')) (ascii ''1-01-02''))"
    unfolding get_dates_def n r
    by (simp add: add_days_00010101 strftime_00010101 strftime_00010102
        del: add_days.simps)
  also have "\<dots> = Inr [(ascii ''1-01-01'', [ascii ''1-01-01'']),
      (ascii ''1-01-02'', [ascii ''1-01-02''])]"
    by (simp add: add_date_def Let_def ascii_def)
  finally have g: "get_dates (Date (Suc 0) (Suc 0) (Suc 0)) (Date (Suc 0) (Suc 0) 2)
      = Inr [(ascii ''1-01-01'', [ascii ''1-01-01'']),
             (ascii ''1-01-02'', [ascii ''1-01-02''])]" .
  have v: "valid_date (Date 1 1 1) \<and> valid_date (Date 1 1 2) \<and> date_le (Date 1 1 1) (Date 1 1 2)"
    by (simp add: days_in_month_def date_le_def)
  from g v show ?thesis by simp
qed

subsection \<open>The station master\<close>

lemma find_snoc:
  "find P (xs @ [x]) = (case find P xs of Some y \<Rightarrow> Some y | None \<Rightarrow> if P x then Some x else None)"
  by (induction xs) simp_all

lemma add_block_first:
  assumes run: "add_block pno (Some pn) (bno, block_name, lat, lng) (seen, df)
      = Inr (seen', df')"
    and keys: "seen = station_key ` set df"
    and rows: "\<And>k. filter (\<lambda>r. station_key r = k) df =
        (if k \<in> set prec_blocks_target
         then (case find (\<lambda>e. entry_key e = k) es of None \<Rightarrow> [] | Some e \<Rightarrow> [station_row e])
         else [])"
  shows "seen' = station_key ` set df'"
    and "filter (\<lambda>r. station_key r = k) df' =
        (if k \<in> set prec_blocks_target
         then (case find (\<lambda>e. entry_key e = k)
                      (es @ [(pno, pn, bno, block_name, lat, lng)])
               of None \<Rightarrow> [] | Some e \<Rightarrow> [station_row e])
         else [])"
proof -
  let ?e = "(pno, pn, bno, block_name, lat, lng)"
  let ?K = "pn @ ascii ''::'' @ block_name"
  have ke: "entry_key ?e = ?K" by simp
  consider (out) "?K \<notin> set prec_blocks_target"
    | (seen) "?K \<in> set prec_blocks_target" "?K \<in> seen"
    | (new) "?K \<in> set prec_blocks_target" "?K \<notin> seen"
    by blast
  then have "seen' = station_key ` set df'
    \<and> filter (\<lambda>r. station_key r = k) df' =
        (if k \<in> set prec_blocks_target
         then (case find (\<lambda>e. entry_key e = k) (es @ [?e])
               of None \<Rightarrow> [] | Some e \<Rightarrow> [station_row e])
         else [])"
  proof cases
    case out
    with run have same: "seen' = seen" "df' = df" by (simp_all add: add_block_def Let_def)
    have "find (\<lambda>e. entry_key e = k) (es @ [?e]) = find (\<lambda>e. entry_key e = k) es"
      if "k \<in> set prec_blocks_target"
    proof -
      from that out have "?K \<noteq> k" by auto
      then show ?thesis by (simp add: find_snoc split: option.splits)
    qed
    with same keys rows [of k] show ?thesis by simp
  next
    case seen
    with run have same: "seen' = seen" "df' = df" by (simp_all add: add_block_def Let_def)
    from seen keys obtain r where "r \<in> set df" "station_key r = ?K" by auto
    then have "filter (\<lambda>r. station_key r = ?K) df \<noteq> []"
      by (auto simp: filter_empty_conv)
    with rows [of ?K] seen obtain e0 where f: "find (\<lambda>e. entry_key e = ?K) es = Some e0"
      by (auto split: option.splits)
    have "find (\<lambda>e. entry_key e = k) (es @ [?e]) = find (\<lambda>e. entry_key e = k) es"
    proof (cases "k = ?K")
      case True
      with f show ?thesis by (simp add: find_snoc)
    next
      case False
      then have "?K \<noteq> k" by simp
      then show ?thesis by (simp add: find_snoc split: option.splits)
    qed
    with same keys rows [of k] show ?thesis by simp
  next
    case new
    from run new obtain en where en: "map_of dict_block_name_en block_name = Some en"
      by (auto simp: add_block_def Let_def split: option.splits)
    let ?row = "\<lparr> st_prec_no = pno, st_prec_name = pn,
                 st_block_no = bno, st_block_name = block_name,
                 st_block_name_en = en, st_lat = lat, st_lng = lng \<rparr>"
    from run new en have upd: "seen' = insert ?K seen" "df' = df @ [?row]"
      by (simp_all add: add_block_def Let_def)
    have row: "?row = station_row ?e" using en by simp
    have krow: "station_key ?row = ?K" by (simp add: station_key_def)
    have k1: "seen' = station_key ` set df'"
      unfolding upd using keys krow by auto
    have "station_key r \<noteq> ?K" if "r \<in> set df" for r
    proof
      assume "station_key r = ?K"
      then have "?K = station_key r" by (rule sym)
      then have "?K \<in> station_key ` set df" using that by (rule image_eqI)
      with new(2) keys show False by simp
    qed
    then have "filter (\<lambda>r. station_key r = ?K) df = []"
      by (simp add: filter_empty_conv)
    with rows [of ?K] new have none: "find (\<lambda>e. entry_key e = ?K) es = None"
      by (auto split: option.splits)
    have k2: "filter (\<lambda>r. station_key r = k) df' =
        (if k \<in> set prec_blocks_target
         then (case find (\<lambda>e. entry_key e = k) (es @ [?e])
               of None \<Rightarrow> [] | Some e \<Rightarrow> [station_row e])
         else [])"
    proof (cases "k = ?K")
      case True
      have "find (\<lambda>e. entry_key e = ?K) (es @ [?e]) = Some ?e"
        using none by (simp add: find_snoc)
      moreover have "filter (\<lambda>r. station_key r = ?K) df' = [?row]"
        unfolding upd using \<open>filter (\<lambda>r. station_key r = ?K) df = []\<close> krow by simp
      ultimately show ?thesis using True new row by simp
    next
      case False
      then have ne: "?K \<noteq> k" by simp
      then have "find (\<lambda>e. entry_key e = k) (es @ [?e]) = find (\<lambda>e. entry_key e = k) es"
        by (simp add: find_snoc split: option.splits)
      moreover have "filter (\<lambda>r. station_key r = k) df' = filter (\<lambda>r. station_key r = k) df"
        unfolding upd using krow ne by simp
      ultimately show ?thesis using rows [of k] by simp
    qed
    from k1 k2 show ?thesis ..
  qed
  then show "seen' = station_key ` set df'"
    and "filter (\<lambda>r. station_key r = k) df' =
        (if k \<in> set prec_blocks_target
         then (case find (\<lambda>e. entry_key e = k)
                      (es @ [(pno, pn, bno, block_name, lat, lng)])
               of None \<Rightarrow> [] | Some e \<Rightarrow> [station_row e])
         else [])"
    by simp_all
qed

lemma add_block_rows:
  assumes run: "add_block pno (Some pn) (bno, block_name, lat, lng) (seen, df) = Inr (seen', df')"
    and keys: "seen = station_key ` set df"
    and rows: "\<And>k. filter (\<lambda>r. station_key r = k) df = rows_for_key k es"
  shows "seen' = station_key ` set df'"
    and "filter (\<lambda>r. station_key r = k) df'
           = rows_for_key k (es @ [(pno, pn, bno, block_name, lat, lng)])"
proof -
  have unfolded: "\<And>k. filter (\<lambda>r. station_key r = k) df =
        (if k \<in> set prec_blocks_target
         then (case find (\<lambda>e. entry_key e = k) es of None \<Rightarrow> [] | Some e \<Rightarrow> [station_row e])
         else [])"
    using rows by (simp add: rows_for_key_def)
  from add_block_first [OF run keys unfolded]
  show "seen' = station_key ` set df'"
    and "filter (\<lambda>r. station_key r = k) df'
           = rows_for_key k (es @ [(pno, pn, bno, block_name, lat, lng)])"
    by (simp_all add: rows_for_key_def)
qed

lemma blocks_loop_rows:
  assumes run: "blocks_loop pno pname blocks (seen, df) = Inr (seen', df')"
    and keys: "seen = station_key ` set df"
    and rows: "\<And>k. filter (\<lambda>r. station_key r = k) df = rows_for_key k es"
  shows "seen' = station_key ` set df'
       \<and> (\<forall>k. filter (\<lambda>r. station_key r = k) df'
               = rows_for_key k (es @ block_entries pno pname blocks))"
  using run keys rows
proof (induction blocks arbitrary: seen df es)
  case Nil
  from Nil(1) have "seen' = seen" "df' = df" by simp_all
  with Nil(2,3) show ?case by simp
next
  case (Cons block blocks)
  show ?case
  proof (cases "get_attr block (ascii ''onmouseover'')")
    case None
    with Cons.prems(1) have "blocks_loop pno pname blocks (seen, df) = Inr (seen', df')"
      by simp
    from Cons.IH [OF this Cons.prems(2) Cons.prems(3)] None show ?thesis by simp
  next
    case (Some s)
    show ?thesis
    proof (cases "bind_err (block_fields s) parse_block")
      case (Inl e)
      with Cons.prems(1) Some show ?thesis by simp
    next
      case (Inr ob)
      show ?thesis
      proof (cases ob)
        case None
        with Cons.prems(1) Some Inr
        have "blocks_loop pno pname blocks (seen, df) = Inr (seen', df')" by simp
        from Cons.IH [OF this Cons.prems(2) Cons.prems(3)] Some Inr None show ?thesis by simp
      next
        case b: (Some b)
        obtain bno block_name lat lng where bq: "b = (bno, block_name, lat, lng)"
          by (cases b)
        show ?thesis
        proof (cases pname)
          case None
          with Cons.prems(1) Some Inr b bq show ?thesis by (simp add: add_block_def)
        next
          case pn: (Some pn)
          show ?thesis
          proof (cases "add_block pno (Some pn) (bno, block_name, lat, lng) (seen, df)")
            case (Inl e)
            with Cons.prems(1) Some Inr b bq pn show ?thesis by simp
          next
            case st: (Inr st1)
            obtain seen1 df1 where st1: "st1 = (seen1, df1)" by (cases st1)
            from st st1 have ab: "add_block pno (Some pn) (bno, block_name, lat, lng) (seen, df)
                = Inr (seen1, df1)"
              by simp
            from Cons.prems(1) Some Inr b bq pn ab
            have rest: "blocks_loop pno pname blocks (seen1, df1) = Inr (seen', df')" by simp
            note step = add_block_rows [OF ab Cons.prems(2) Cons.prems(3)]
            from Cons.IH [OF rest step(1) step(2)]
            show ?thesis using Some Inr b bq pn by simp
          qed
        qed
      qed
    qed
  qed
qed

lemma precs_loop_rows:
  assumes run: "precs_loop bs precs (seen, df) w = (Inr (seen', df'), w')"
    and keys: "seen = station_key ` set df"
    and rows: "\<And>k. filter (\<lambda>r. station_key r = k) df = rows_for_key k es"
  shows "seen' = station_key ` set df'
       \<and> (\<forall>k. filter (\<lambda>r. station_key r = k) df'
               = rows_for_key k (es @ precs_entries bs precs w))"
  using run keys rows
proof (induction precs arbitrary: seen df es w)
  case Nil
  from Nil(1) have "seen' = seen" "df' = df" by simp_all
  with Nil(2,3) show ?case by simp
next
  case (Cons prec precs)
  show ?case
  proof (cases "prec_no_of prec")
    case (Inl e)
    with Cons.prems(1) show ?thesis by simp
  next
    case (Inr pno)
    show ?thesis
    proof (cases "get_attr prec (ascii ''alt'') = Some nankyoku")
      case True
      with Cons.prems(1) Inr
      have "precs_loop bs precs (seen, df) w = (Inr (seen', df'), w')" by simp
      from Cons.IH [OF this Cons.prems(2) Cons.prems(3)] Inr True show ?thesis by simp
    next
      case False
      obtain r w1 where page: "get_page_blocks pno w = (r, w1)"
        by (cases "get_page_blocks pno w")
      show ?thesis
      proof (cases r)
        case (Inl e)
        with Cons.prems(1) Inr False page show ?thesis by simp
      next
        case content: (Inr content_blocks)
        let ?blocks = "find_all (ascii ''area'') (bs content_blocks)"
        let ?pname = "get_attr prec (ascii ''alt'')"
        show ?thesis
        proof (cases "blocks_loop pno ?pname ?blocks (seen, df)")
          case (Inl e)
          with Cons.prems(1) Inr False page content show ?thesis by simp
        next
          case st: (Inr st1)
          obtain seen1 df1 where st1: "st1 = (seen1, df1)" by (cases st1)
          from st st1 have bl: "blocks_loop pno ?pname ?blocks (seen, df) = Inr (seen1, df1)"
            by simp
          from Cons.prems(1) Inr False page content bl
          have rest: "precs_loop bs precs (seen1, df1) w1 = (Inr (seen', df'), w')" by simp
          from blocks_loop_rows [OF bl Cons.prems(2) Cons.prems(3)]
          have k1: "seen1 = station_key ` set df1"
            and r1: "\<And>k. filter (\<lambda>r. station_key r = k) df1
               = rows_for_key k (es @ block_entries pno ?pname ?blocks)"
            by simp_all
          from Cons.IH [OF rest k1 r1]
          show ?thesis using Inr False page content by simp
        qed
      qed
    qed
  qed
qed

lemma get_master_rows:
  assumes run: "get_master bs w = (Inr rows, w')"
  shows "filter (\<lambda>r. station_key r = k) rows = rows_for_key k (master_entries bs w)"
proof -
  obtain r w1 where page: "get_page_precs w = (r, w1)" by (cases "get_page_precs w")
  from run page obtain content_precs where c: "r = Inr content_precs"
    by (cases r) (simp_all add: get_master_def)
  let ?precs = "find_all (ascii ''area'') (bs content_precs)"
  obtain r2 w2 where loop: "precs_loop bs ?precs ({}, []) w1 = (r2, w2)"
    by (cases "precs_loop bs ?precs ({}, []) w1")
  from run page c loop obtain st where st: "r2 = Inr st"
    by (cases r2) (simp_all add: get_master_def)
  obtain seen' df' where sd: "st = (seen', df')" by (cases st)
  from run page c loop st sd have rows: "rows = df'" by (simp add: get_master_def)
  have l: "precs_loop bs ?precs ({}, []) w1 = (Inr (seen', df'), w2)"
    using loop st sd by simp
  have k0: "{} = station_key ` set ([] :: station list)" by simp
  have r0: "\<And>k. filter (\<lambda>r. station_key r = k) [] = rows_for_key k []"
    by (simp add: rows_for_key_def)
  from precs_loop_rows [OF l k0 r0]
  have "filter (\<lambda>r. station_key r = k) df' = rows_for_key k ([] @ precs_entries bs ?precs w1)"
    by simp
  with rows page c show ?thesis by (simp add: master_entries_def)
qed

lemma str_int_44: "str_int 44 = ascii ''44''"
  by (simp add: str_int_def str_nat.simps ascii_def)

lemma prec_no_of_region_44: "prec_no_of (region_area 44 name) = Inr 44"
  unfolding region_area_def str_int_44
  by (simp add: prec_no_of_def bind_err_def nth_err_def py_split_def int_of_str_def
      ascii_def strip_def is_space_def is_digit_def parse_sign_def digits_val_def Let_def)

lemma page_precs: "get_page_precs master_world = (Inr (ascii ''P''), master_world)"
  by (simp add: get_page_precs_def get_page_def master_world_def example_world_def ascii_def)

lemma page_blocks_44: "get_page_blocks 44 master_world = (Inr (ascii ''B''), master_world)"
  unfolding get_page_blocks_def str_int_44
  by (simp add: get_page_def master_world_def example_world_def ascii_def)

lemma areas_map_page:
  "find_all (ascii ''area'') (map_page (map station_area lis)) = map station_area lis"
  unfolding map_page_def
proof (rule find_all_children)
  fix c assume "c \<in> set (map station_area lis)"
  then obtain li where "c = station_area li" by auto
  then show "is_tag (ascii ''area'') c \<and> find_all (ascii ''area'') c = []"
    by (simp add: station_area_def find_all_Tag)
qed

lemma areas_region_page:
  "find_all (ascii ''area'') (map_page [region_area n name]) = [region_area n name]"
  unfolding map_page_def
  by (rule find_all_children) (simp add: region_area_def find_all_Tag)

lemma alt_region_area: "get_attr (region_area n name) (ascii ''alt'') = Some name"
  by (simp add: region_area_def)

lemma onmouseover_station_area:
  "get_attr (station_area li) (ascii ''onmouseover'')
     = Some (ascii ''javascript:viewPoint('' @ join_commas (map quoted li) @ ascii '');'')"
  by (simp add: station_area_def)

lemma float_texts:
  "float_of_str (ascii ''35'') = Inr (Fin 35)"
  "float_of_str (ascii ''41.5'') = Inr (Fin (83 / 2))"
  "float_of_str (ascii ''139'') = Inr (Fin 139)"
  "float_of_str (ascii ''45.0'') = Inr (Fin 45)"
  "float_of_str (ascii ''45'') = Inr (Fin 45)"
  "float_of_str (ascii ''24.9'') = Inr (Fin (249 / 10))"
  "float_of_str (ascii ''141'') = Inr (Fin 141)"
  "float_of_str (ascii ''40.7'') = Inr (Fin (407 / 10))"
  by (simp_all add: float_eval_defs)

lemma int_texts:
  "int_of_str (ascii ''47662'') = Inr 47662"
  "int_of_str (ascii ''47663'') = Inr 47663"
  "int_of_str (ascii ''47401'') = Inr 47401"
  by (simp_all add: int_of_str_def ascii_def strip_def is_space_def is_digit_def
      parse_sign_def digits_val_def Let_def)

lemma fields_tokyo_47662:
  "block_fields (ascii ''javascript:viewPoint(''
       @ join_commas (map quoted (tokyo_fields (ascii ''47662''))) @ ascii '');'')
   = Inr (tokyo_fields (ascii ''47662''))"
  by (simp add: block_fields_def bind_err_def nth_err_def py_split_def quoted_def
      slice_1_m1_def tokyo_fields_def ascii_def)

lemma fields_tokyo_47663:
  "block_fields (ascii ''javascript:viewPoint(''
       @ join_commas (map quoted (tokyo_fields (ascii ''47663''))) @ ascii '');'')
   = Inr (tokyo_fields (ascii ''47663''))"
  by (simp add: block_fields_def bind_err_def nth_err_def py_split_def quoted_def
      slice_1_m1_def tokyo_fields_def ascii_def)

lemma fields_wakkanai:
  "block_fields (ascii ''javascript:viewPoint(''
       @ join_commas (map quoted wakkanai_fields) @ ascii '');'')
   = Inr wakkanai_fields"
  by (simp add: block_fields_def bind_err_def nth_err_def py_split_def quoted_def
      slice_1_m1_def wakkanai_fields_def ascii_def)

lemma parse_tokyo:
  assumes "int_of_str number = Inr n"
  shows "parse_block (tokyo_fields number)
    = Inr (Some (n, [26481, 20140],
        pf_add (Fin 35) (pf_div60 (Fin (83 / 2))), pf_add (Fin 139) (pf_div60 (Fin 45))))"
  unfolding parse_block_def tokyo_fields_def float_at_def
  by (simp add: bind_err_def nth_err_def assms float_texts)

lemma parse_wakkanai:
  "parse_block wakkanai_fields
    = Inr (Some (47401, [31258, 20869],
        pf_add (Fin 45) (pf_div60 (Fin (249 / 10))), pf_add (Fin 141) (pf_div60 (Fin (407 / 10)))))"
  unfolding parse_block_def wakkanai_fields_def float_at_def
  by (simp add: bind_err_def nth_err_def int_texts float_texts)

lemma tokyo_key_target:
  "[26481, 20140, 37117] @ ascii ''::'' @ [26481, 20140] \<in> set prec_blocks_target"
  by (simp add: prec_blocks_target_def ascii_def)

lemma wakkanai_key_target:
  "[23447, 35895, 22320, 26041] @ ascii ''::'' @ [31258, 20869] \<notin> set prec_blocks_target"
  by (simp add: prec_blocks_target_def ascii_def)

lemma tokyo_en: "map_of dict_block_name_en [26481, 20140] = Some (ascii ''tokyo'')"
  by (simp add: dict_block_name_en_def)

lemma parsed_tokyo_47662:
  "bind_err (block_fields (ascii ''javascript:viewPoint(''
       @ join_commas (map quoted (tokyo_fields (ascii ''47662''))) @ ascii '');'')) parse_block
   = Inr (Some (47662, [26481, 20140],
        pf_add (Fin 35) (pf_div60 (Fin (83 / 2))), pf_add (Fin 139) (pf_div60 (Fin 45))))"
  unfolding fields_tokyo_47662 by (simp add: bind_err_def parse_tokyo int_texts)

lemma parsed_tokyo_47663:
  "bind_err (block_fields (ascii ''javascript:viewPoint(''
       @ join_commas (map quoted (tokyo_fields (ascii ''47663''))) @ ascii '');'')) parse_block
   = Inr (Some (47663, [26481, 20140],
        pf_add (Fin 35) (pf_div60 (Fin (83 / 2))), pf_add (Fin 139) (pf_div60 (Fin 45))))"
  unfolding fields_tokyo_47663 by (simp add: bind_err_def parse_tokyo int_texts)

lemma parsed_wakkanai:
  "bind_err (block_fields (ascii ''javascript:viewPoint(''
       @ join_commas (map quoted wakkanai_fields) @ ascii '');'')) parse_block
   = Inr (Some (47401, [31258, 20869],
        pf_add (Fin 45) (pf_div60 (Fin (249 / 10))), pf_add (Fin 141) (pf_div60 (Fin (407 / 10)))))"
  unfolding fields_wakkanai by (simp add: bind_err_def parse_wakkanai)

lemma block_entries_tokyo:
  "block_entries 44 (Some [26481, 20140, 37117])
     [station_area (tokyo_fields (ascii ''47662'')), station_area (tokyo_fields (ascii ''47663''))]
   = [(44, [26481, 20140, 37117], 47662, [26481, 20140],
        pf_add (Fin 35) (pf_div60 (Fin (83 / 2))), pf_add (Fin 139) (pf_div60 (Fin 45))),
      (44, [26481, 20140, 37117], 47663, [26481, 20140],
        pf_add (Fin 35) (pf_div60 (Fin (83 / 2))), pf_add (Fin 139) (pf_div60 (Fin 45)))]"
  by (simp add: onmouseover_station_area parsed_tokyo_47662 parsed_tokyo_47663)

lemma block_entries_wakkanai:
  "block_entries 44 (Some [23447, 35895, 22320, 26041])
     [station_area wakkanai_fields, station_area wakkanai_fields]
   = [(44, [23447, 35895, 22320, 26041], 47401, [31258, 20869],
        pf_add (Fin 45) (pf_div60 (Fin (249 / 10))), pf_add (Fin 141) (pf_div60 (Fin (407 / 10)))),
      (44, [23447, 35895, 22320, 26041], 47401, [31258, 20869],
        pf_add (Fin 45) (pf_div60 (Fin (249 / 10))), pf_add (Fin 141) (pf_div60 (Fin (407 / 10))))]"
  by (simp add: onmouseover_station_area parsed_wakkanai)

lemma master_entries_one_region:
  assumes "name \<noteq> nankyoku"
  shows "master_entries (master_bs (map_page [region_area 44 name]) (map_page (map station_area lis)))
       master_world
     = block_entries 44 (Some name) (map station_area lis)"
proof -
  have pb: "ascii ''P'' \<noteq> ascii ''B''" by (simp add: ascii_def)
  have a: "master_bs (map_page [region_area 44 name]) (map_page (map station_area lis)) (ascii ''P'')
      = map_page [region_area 44 name]"
    by (simp add: master_bs_def)
  have b: "master_bs (map_page [region_area 44 name]) (map_page (map station_area lis)) (ascii ''B'')
      = map_page (map station_area lis)"
    using pb by (simp add: master_bs_def)
  show ?thesis
    unfolding master_entries_def page_precs
    using assms
    by (simp add: a b areas_region_page areas_map_page prec_no_of_region_44 alt_region_area
        page_blocks_44)
qed

lemma get_master_one_region:
  assumes "name \<noteq> nankyoku"
  shows "get_master (master_bs (map_page [region_area 44 name]) (map_page (map station_area lis)))
       master_world
     = (case blocks_loop 44 (Some name) (map station_area lis) ({}, []) of
          Inl e \<Rightarrow> (Inl e, master_world)
        | Inr st \<Rightarrow> (Inr (snd st), master_world))"
proof -
  have pb: "ascii ''P'' \<noteq> ascii ''B''" by (simp add: ascii_def)
  have a: "master_bs (map_page [region_area 44 name]) (map_page (map station_area lis)) (ascii ''P'')
      = map_page [region_area 44 name]"
    by (simp add: master_bs_def)
  have b: "master_bs (map_page [region_area 44 name]) (map_page (map station_area lis)) (ascii ''B'')
      = map_page (map station_area lis)"
    using pb by (simp add: master_bs_def)
  show ?thesis
    unfolding get_master_def page_precs
    using assms
    by (simp add: a b areas_region_page areas_map_page prec_no_of_region_44 alt_region_area
        page_blocks_44 split: sum.splits)
qed

lemma blocks_loop_tokyo:
  "blocks_loop 44 (Some [26481, 20140, 37117])
     [station_area (tokyo_fields (ascii ''47662'')), station_area (tokyo_fields (ascii ''47663''))]
     ({}, [])
   = Inr ({[26481, 20140, 37117] @ ascii ''::'' @ [26481, 20140]},
          [\<lparr> st_prec_no = 44, st_prec_name = [26481, 20140, 37117],
             st_block_no = 47662, st_block_name = [26481, 20140],
             st_block_name_en = ascii ''tokyo'',
             st_lat = pf_add (Fin 35) (pf_div60 (Fin (83 / 2))),
             st_lng = pf_add (Fin 139) (pf_div60 (Fin 45)) \<rparr>])"
  using tokyo_key_target
  by (simp add: onmouseover_station_area parsed_tokyo_47662 parsed_tokyo_47663
      add_block_def Let_def tokyo_en)

lemma blocks_loop_wakkanai:
  "blocks_loop 44 (Some [23447, 35895, 22320, 26041])
     [station_area wakkanai_fields, station_area wakkanai_fields] ({}, [])
   = Inr ({}, [])"
  using wakkanai_key_target
  by (simp add: onmouseover_station_area parsed_wakkanai add_block_def Let_def)

lemma distinct_keys:
  assumes "\<And>k. length (filter (\<lambda>x. f x = k) xs) \<le> 1"
  shows "distinct (map f xs)"
  using assms
proof (induction xs)
  case Nil
  show ?case by simp
next
  case (Cons a xs)
  have rest: "length (filter (\<lambda>x. f x = k) xs) \<le> 1" for k
    using Cons.prems [of k] by (simp split: if_splits)
  have "f a \<notin> f ` set xs"
  proof
    assume "f a \<in> f ` set xs"
    then obtain b where b: "b \<in> set xs" "f b = f a" by auto
    then have "filter (\<lambda>x. f x = f a) xs \<noteq> []" by (auto simp: filter_empty_conv)
    then have "1 \<le> length (filter (\<lambda>x. f x = f a) xs)"
      by (cases "filter (\<lambda>x. f x = f a) xs") simp_all
    with Cons.prems [of "f a"] show False by simp
  qed
  with Cons.IH [OF rest] show ?case by simp
qed

text \<open>
  C7 (as amended). When \<open>get_master\<close> returns a table: for every composite key of the
  target list that some observatory entry of the traversal has, the table holds exactly
  one row with that key, and it is the row built from the first such entry in traversal
  order; for a key that is not in the target list, or that no observatory entry has, the
  table holds no row. So no key occurs in two rows.
\<close>

theorem get_master_first_match:
  assumes run: "get_master bs w = (Inr rows, w')"
  shows "(\<forall>k. filter (\<lambda>r. station_key r = k) rows =
           (if k \<in> set prec_blocks_target
            then (case find (\<lambda>e. entry_key e = k) (master_entries bs w) of
                    None \<Rightarrow> [] | Some e \<Rightarrow> [station_row e])
            else []))
       \<and> distinct (map station_key rows)"
proof -
  have each: "filter (\<lambda>r. station_key r = k) rows =
           (if k \<in> set prec_blocks_target
            then (case find (\<lambda>e. entry_key e = k) (master_entries bs w) of
                    None \<Rightarrow> [] | Some e \<Rightarrow> [station_row e])
            else [])" for k
    using get_master_rows [OF run, of k] by (simp add: rows_for_key_def)
  have "length (filter (\<lambda>r. station_key r = k) rows) \<le> 1" for k
    unfolding each by (simp split: option.splits)
  then have "distinct (map station_key rows)" by (rule distinct_keys)
  with each show ?thesis by blast
qed

theorem get_master_first_match_witness:
  "fst (get_master (master_bs (map_page [region_area 44 [26481, 20140, 37117]]) tokyo_page)
        master_world)
     = Inr (stations_of (get_master
         (master_bs (map_page [region_area 44 [26481, 20140, 37117]]) tokyo_page) master_world))
   \<and> map entry_key (master_entries
         (master_bs (map_page [region_area 44 [26481, 20140, 37117]]) tokyo_page) master_world)
     = [[26481, 20140, 37117] @ ascii ''::'' @ [26481, 20140],
        [26481, 20140, 37117] @ ascii ''::'' @ [26481, 20140]]
   \<and> map (\<lambda>e. fst (snd (snd e))) (master_entries
         (master_bs (map_page [region_area 44 [26481, 20140, 37117]]) tokyo_page) master_world)
     = [47662, 47663]
   \<and> map st_block_no
        (filter (\<lambda>r. station_key r = [26481, 20140, 37117] @ ascii ''::'' @ [26481, 20140])
          (stations_of (get_master
            (master_bs (map_page [region_area 44 [26481, 20140, 37117]]) tokyo_page)
            master_world)))
     = [47662]"
proof -
  let ?bs = "master_bs (map_page [region_area 44 [26481, 20140, 37117]]) tokyo_page"
  let ?K = "[26481, 20140, 37117] @ ascii ''::'' @ [26481, 20140]"
  let ?lat = "pf_add (Fin 35) (pf_div60 (Fin (83 / 2)))"
  let ?lng = "pf_add (Fin 139) (pf_div60 (Fin 45))"
  let ?row = "\<lparr> st_prec_no = 44, st_prec_name = [26481, 20140, 37117],
             st_block_no = 47662, st_block_name = [26481, 20140],
             st_block_name_en = ascii ''tokyo'', st_lat = ?lat, st_lng = ?lng \<rparr>"
  have ne: "[26481, 20140, 37117] \<noteq> nankyoku" by (simp add: nankyoku_def)
  have run: "get_master ?bs master_world = (Inr [?row], master_world)"
    using get_master_one_region [OF ne,
        of "[tokyo_fields (ascii ''47662''), tokyo_fields (ascii ''47663'')]"]
    by (simp add: tokyo_page_def blocks_loop_tokyo del: blocks_loop.simps)
  have es: "master_entries ?bs master_world
     = [(44, [26481, 20140, 37117], 47662, [26481, 20140], ?lat, ?lng),
        (44, [26481, 20140, 37117], 47663, [26481, 20140], ?lat, ?lng)]"
    using master_entries_one_region [OF ne,
        of "[tokyo_fields (ascii ''47662''), tokyo_fields (ascii ''47663'')]"]
    by (simp add: tokyo_page_def block_entries_tokyo del: block_entries.simps)
  have st: "stations_of (get_master ?bs master_world) = [?row]"
    by (simp add: stations_of_def run)
  from get_master_first_match [OF run]
  have "filter (\<lambda>r. station_key r = ?K) [?row] =
           (if ?K \<in> set prec_blocks_target
            then (case find (\<lambda>e. entry_key e = ?K) (master_entries ?bs master_world) of
                    None \<Rightarrow> [] | Some e \<Rightarrow> [station_row e])
            else [])"
    by blast
  also have "\<dots> = [station_row (44, [26481, 20140, 37117], 47662, [26481, 20140], ?lat, ?lng)]"
    using tokyo_key_target by (simp add: es)
  finally have first: "map st_block_no (filter (\<lambda>r. station_key r = ?K) [?row]) = [47662]"
    by simp
  have a: "fst (get_master ?bs master_world) = Inr (stations_of (get_master ?bs master_world))"
    unfolding st by (simp add: run)
  have b: "map entry_key (master_entries ?bs master_world) = [?K, ?K]"
    by (simp add: es)
  have c: "map (\<lambda>e. fst (snd (snd e))) (master_entries ?bs master_world) = [47662, 47663]"
    by (simp add: es)
  from first have d: "map st_block_no (filter (\<lambda>r. station_key r = ?K)
      (stations_of (get_master ?bs master_world))) = [47662]"
    by (simp only: st)
  from a b c d show ?thesis by (intro conjI)
qed

text \<open>
  The claim as stated fails for a composite key that is not in the target list: two
  observatory entries of Wakkanai map to one key, and the table holds no row for it.
\<close>

theorem get_master_outside_target_counterexample:
  "map entry_key (master_entries
       (master_bs (map_page [region_area 44 [23447, 35895, 22320, 26041]]) wakkanai_page)
       master_world)
     = [[23447, 35895, 22320, 26041] @ ascii ''::'' @ [31258, 20869],
        [23447, 35895, 22320, 26041] @ ascii ''::'' @ [31258, 20869]]
   \<and> fst (get_master
       (master_bs (map_page [region_area 44 [23447, 35895, 22320, 26041]]) wakkanai_page)
       master_world) = Inr []"
proof -
  let ?bs = "master_bs (map_page [region_area 44 [23447, 35895, 22320, 26041]]) wakkanai_page"
  have ne: "[23447, 35895, 22320, 26041] \<noteq> nankyoku" by (simp add: nankyoku_def)
  have run: "get_master ?bs master_world = (Inr [], master_world)"
    using get_master_one_region [OF ne, of "[wakkanai_fields, wakkanai_fields]"]
    by (simp add: wakkanai_page_def blocks_loop_wakkanai del: blocks_loop.simps)
  have es: "map entry_key (master_entries ?bs master_world)
     = [[23447, 35895, 22320, 26041] @ ascii ''::'' @ [31258, 20869],
        [23447, 35895, 22320, 26041] @ ascii ''::'' @ [31258, 20869]]"
    using master_entries_one_region [OF ne, of "[wakkanai_fields, wakkanai_fields]"]
    by (simp add: wakkanai_page_def block_entries_wakkanai del: block_entries.simps)
  from run es show ?thesis by simp
qed

end
